theory Spec2Isabelle
  imports Complex_Main "HOL-Library.Sublist" "HOL-Library.Word" "HOL-Library.Log_Nat"
begin

section \<open>Data model (src/src/types, src/src/hooks/use-bot-detection.ts)\<close>

text \<open>
  Timestamps (\<open>Date.now()\<close>, whole milliseconds), their differences and the scores are
  integers far below \<open>2^53\<close>, where JavaScript's arithmetic is exact: they are \<open>int\<close>.
  Counters that only count up from zero are \<open>nat\<close>. Pointer coordinates (\<open>clientX\<close>,
  \<open>clientY\<close>) and the averages of the scorer are IEEE 754 double-precision numbers: a
  finite double is represented by the rational number it denotes, and every arithmetic
  operation of the source on such numbers is the exact operation followed by the rounding
  \<open>fl\<close> defined next.
\<close>

subsection \<open>Double-precision arithmetic\<close>

text \<open>Rounding to the nearest integer, ties to the even one.\<close>

definition round_half_even :: "rat \<Rightarrow> int" where
  "round_half_even m =
     (let f = \<lfloor>m\<rfloor>; d = m - of_int f
      in if d < 1 / 2 then f
         else if 1 / 2 < d then f + 1
         else if even f then f else f + 1)"

text \<open>
  For \<open>x > 0\<close>, \<open>expo x\<close> is the binary exponent of \<open>x\<close>: \<open>2^e \<le> x < 2^(e+1)\<close>. It is
  computed from the bit lengths of numerator and denominator, which fix it up to one.
\<close>

definition expo :: "rat \<Rightarrow> int" where
  "expo x =
     (case quotient_of x of (p, q) \<Rightarrow>
        let e0 = bitlen p - bitlen q
        in if x < 2 powi e0 then e0 - 1 else e0)"

text \<open>
  The exponent of the unit in the last place: 53 significant bits, and no finer than
  \<open>2^-1074\<close> (the subnormal numbers).
\<close>

definition ulp_exp :: "rat \<Rightarrow> int" where
  "ulp_exp x = max (expo x - 52) (- 1074)"

text \<open>
  \<open>fl x\<close>: the double nearest to \<open>x\<close>, ties to even. Overflow is not represented: where
  the source would reach \<open>Infinity\<close> (beyond about \<open>1.8 * 10^308\<close>), \<open>fl\<close> yields a finite
  number of that size. The scorer only compares its averages with 5, 50 and 100, and those
  comparisons come out the same for \<open>Infinity\<close> and for such a number.
\<close>

definition fl :: "rat \<Rightarrow> rat" where
  "fl x =
     (if x = 0 then 0
      else (let u = ulp_exp \<bar>x\<bar>
            in sgn x * of_int (round_half_even (\<bar>x\<bar> / 2 powi u)) * 2 powi u))"

definition fadd :: "rat \<Rightarrow> rat \<Rightarrow> rat" where
  "fadd a b = fl (a + b)"

definition fsub :: "rat \<Rightarrow> rat \<Rightarrow> rat" where
  "fsub a b = fl (a - b)"

definition fdiv :: "rat \<Rightarrow> rat \<Rightarrow> rat" where
  "fdiv a b = fl (a / b)"

subsection \<open>Records\<close>

record MouseMovement =
  mouse_x :: rat
  mouse_y :: rat
  mouse_timestamp :: int

record TypingPattern =
  tp_key :: string
  tp_timestamp :: int
  timeSinceLastKey :: int

record BotDetectionStats =
  stats_mouseMovements :: nat
  stats_typingEvents :: nat
  stats_focusEvents :: nat
  stats_timeSpent :: int

record BotDetectionResult =
  score :: int
  reasons :: "string list"
  isBot :: bool
  stats :: BotDetectionStats
  honeypotTriggered :: bool

text \<open>
  The state owned by one \<open>useBotDetection\<close> instance: the \<open>useState\<close> cells and the
  \<open>useRef\<close> cells of the hook.
\<close>

record bot_state =
  botScore :: int
  detectionReasons :: "string list"
  formStartTime :: int
  mouseMovements :: "MouseMovement list"
  hasMouseMovement :: bool
  typingPatterns :: "TypingPattern list"
  lastKeyTime :: int
  focusEvents :: nat

text \<open>
  The host environment read by the scorer. \<open>navigator_webdriver = None\<close> stands for
  \<open>typeof navigator === 'undefined'\<close>, \<open>Some b\<close> for a navigator whose
  \<open>webdriver === true\<close> test yields \<open>b\<close>. \<open>window_outer = None\<close> stands for
  \<open>typeof window === 'undefined'\<close>, \<open>Some (w, h)\<close> for \<open>outerWidth = w\<close>,
  \<open>outerHeight = h\<close>. \<open>Math_pow\<close> is the host's \<open>Math.pow\<close>: ECMAScript leaves its
  result implementation-approximated, so it is a parameter of the model and not a fixed
  function.
\<close>

record environment =
  navigator_webdriver :: "bool option"
  window_outer :: "(int \<times> int) option"
  Math_pow :: "rat \<Rightarrow> rat \<Rightarrow> rat"

definition useBotDetection_init :: "int \<Rightarrow> bot_state" where
  "useBotDetection_init now =
     \<lparr> botScore = 0, detectionReasons = [], formStartTime = now,
       mouseMovements = [], hasMouseMovement = False,
       typingPatterns = [], lastKeyTime = 0, focusEvents = 0 \<rparr>"

section \<open>Telemetry handlers\<close>

text \<open>\<open>Array.prototype.shift\<close>: drop the oldest element.\<close>

definition shift :: "'a list \<Rightarrow> 'a list" where
  "shift xs = tl xs"

text \<open>\<open>Array.prototype.slice(-n)\<close>: the last \<open>n\<close> elements, all of them when there are fewer.\<close>

definition slice_last :: "nat \<Rightarrow> 'a list \<Rightarrow> 'a list" where
  "slice_last n xs = drop (length xs - n) xs"

definition trackMouseMovement :: "rat \<Rightarrow> rat \<Rightarrow> int \<Rightarrow> bot_state \<Rightarrow> bot_state" where
  "trackMouseMovement clientX clientY now st =
     (let movement = \<lparr> mouse_x = clientX, mouse_y = clientY, mouse_timestamp = now \<rparr>;
          pushed = mouseMovements st @ [movement]
      in st \<lparr> mouseMovements := (if length pushed > 50 then shift pushed else pushed),
              hasMouseMovement := True \<rparr>)"

definition trackKeyPress :: "string \<Rightarrow> int \<Rightarrow> bot_state \<Rightarrow> bot_state" where
  "trackKeyPress k now st =
     (let pattern = \<lparr> tp_key = k, tp_timestamp = now,
                      timeSinceLastKey = now - lastKeyTime st \<rparr>;
          pushed = typingPatterns st @ [pattern]
      in st \<lparr> typingPatterns := (if length pushed > 100 then shift pushed else pushed),
              lastKeyTime := now \<rparr>)"

definition handleFieldFocus :: "bot_state \<Rightarrow> bot_state" where
  "handleFieldFocus st = st \<lparr> focusEvents := focusEvents st + 1 \<rparr>"

section \<open>The behaviour scorer \<open>analyzeBehavior\<close>\<close>

text \<open>\<open>xs.reduce((a, b) => a + b, 0)\<close>\<close>

definition reduce_add :: "rat list \<Rightarrow> rat" where
  "reduce_add xs = foldl (\<lambda>a b. fadd a b) 0 xs"

text \<open>The window of mouse samples and the per-sample variations of rule 1's else branch.\<close>

definition movements :: "bot_state \<Rightarrow> MouseMovement list" where
  "movements st = slice_last 20 (mouseMovements st)"

definition variations :: "MouseMovement list \<Rightarrow> rat list" where
  "variations ms =
     map (\<lambda>i. if i = 0 then 0
               else (let m = ms ! i; prev = ms ! (i - 1)
                     in fadd \<bar>fsub (mouse_x m) (mouse_x prev)\<bar>
                             \<bar>fsub (mouse_y m) (mouse_y prev)\<bar>))
         [0 ..< length ms]"

definition avgVariation :: "bot_state \<Rightarrow> rat" where
  "avgVariation st =
     fdiv (reduce_add (variations (movements st))) (of_nat (length (variations (movements st))))"

text \<open>The filtered key intervals, their mean and their variance (typing block).\<close>

definition intervals :: "bot_state \<Rightarrow> int list" where
  "intervals st =
     filter (\<lambda>t. t > 0 \<and> t < 1000) (map timeSinceLastKey (slice_last 20 (typingPatterns st)))"

definition avgInterval :: "bot_state \<Rightarrow> rat" where
  "avgInterval st =
     fdiv (reduce_add (map of_int (intervals st))) (of_nat (length (intervals st)))"

definition variance :: "environment \<Rightarrow> bot_state \<Rightarrow> rat" where
  "variance env st =
     fdiv (foldl (\<lambda>acc interval.
                    fadd acc (Math_pow env (fsub (of_int interval) (avgInterval st)) 2))
                 0 (intervals st))
          (of_nat (length (intervals st)))"

text \<open>
  The scorer threads the pair \<open>(score, reasons)\<close> through its six numbered blocks;
  each block is one function on that pair, in the order of the source.
\<close>

type_synonym acc = "int \<times> string list"

definition checkMouse :: "bot_state \<Rightarrow> acc \<Rightarrow> acc" where
  "checkMouse st a =
     (case a of (s, rs) \<Rightarrow>
        if \<not> hasMouseMovement st \<or> length (mouseMovements st) < 5
        then (s + 30, rs @ [''No natural mouse movement detected''])
        else if avgVariation st < 5
             then (s + 20, rs @ [''Unnatural mouse movement patterns''])
             else (s, rs))"

definition checkVariance :: "environment \<Rightarrow> bot_state \<Rightarrow> acc \<Rightarrow> acc" where
  "checkVariance env st a =
     (case a of (s, rs) \<Rightarrow>
        if variance env st < 100
        then (s + 15, rs @ [''Unnaturally consistent typing pattern''])
        else (s, rs))"

definition checkSpeed :: "bot_state \<Rightarrow> acc \<Rightarrow> acc" where
  "checkSpeed st a =
     (case a of (s, rs) \<Rightarrow>
        if avgInterval st < 50
        then (s + 20, rs @ [''Superhuman typing speed detected''])
        else (s, rs))"

definition checkTyping :: "environment \<Rightarrow> bot_state \<Rightarrow> acc \<Rightarrow> acc" where
  "checkTyping env st a =
     (if length (typingPatterns st) > 10
      then (if length (intervals st) > 5
            then checkSpeed st (checkVariance env st a)
            else a)
      else a)"

definition checkTotalTime :: "bot_state \<Rightarrow> int \<Rightarrow> acc \<Rightarrow> acc" where
  "checkTotalTime st currentTime a =
     (case a of (s, rs) \<Rightarrow>
        let totalTime = currentTime - formStartTime st
        in if totalTime < 2000
           then (s + 40, rs @ [''Form filled too quickly''])
           else (s, rs))"

definition checkFocus :: "bot_state \<Rightarrow> acc \<Rightarrow> acc" where
  "checkFocus st a =
     (case a of (s, rs) \<Rightarrow>
        if focusEvents st < 2
        then (s + 15, rs @ [''Insufficient focus interactions''])
        else (s, rs))"

definition checkWebdriver :: "environment \<Rightarrow> acc \<Rightarrow> acc" where
  "checkWebdriver env a =
     (case a of (s, rs) \<Rightarrow>
        if navigator_webdriver env \<noteq> None \<and> navigator_webdriver env = Some True
        then (s + 25, rs @ [''Automated browser detected''])
        else (s, rs))"

definition checkHeadless :: "environment \<Rightarrow> acc \<Rightarrow> acc" where
  "checkHeadless env a =
     (case a of (s, rs) \<Rightarrow>
        if (case window_outer env of None \<Rightarrow> False
            | Some (outerWidth, outerHeight) \<Rightarrow> outerWidth = 0 \<or> outerHeight = 0)
        then (s + 35, rs @ [''Headless browser indicators''])
        else (s, rs))"

text \<open>
  \<open>analyzeBehavior st env currentTime statsTime\<close>: \<open>currentTime\<close> is the value of the
  \<open>Date.now()\<close> read in block 3, \<open>statsTime\<close> that of the one read for \<open>stats.timeSpent\<close>.
\<close>

definition analyzeBehavior ::
  "bot_state \<Rightarrow> environment \<Rightarrow> int \<Rightarrow> int \<Rightarrow> BotDetectionResult" where
  "analyzeBehavior st env currentTime statsTime =
     (case checkHeadless env (checkWebdriver env (checkFocus st
             (checkTotalTime st currentTime (checkTyping env st (checkMouse st (0, []))))))
      of (s, rs) \<Rightarrow>
        \<lparr> score = s, reasons = rs, isBot = (s \<ge> 50),
          stats = \<lparr> stats_mouseMovements = length (mouseMovements st),
                    stats_typingEvents = length (typingPatterns st),
                    stats_focusEvents = focusEvents st,
                    stats_timeSpent = statsTime - formStartTime st \<rparr>,
          honeypotTriggered = False \<rparr>)"

definition handleFormSubmit ::
  "bot_state \<Rightarrow> environment \<Rightarrow> int \<Rightarrow> int \<Rightarrow> BotDetectionResult \<times> bot_state" where
  "handleFormSubmit st env currentTime statsTime =
     (let result = analyzeBehavior st env currentTime statsTime
      in (result, st \<lparr> botScore := score result, detectionReasons := reasons result \<rparr>))"

section \<open>The submission-time merge (src/src/components/bot-protected-form.tsx)\<close>

definition mergeResult ::
  "BotDetectionResult \<Rightarrow> bool \<Rightarrow> BotDetectionStats \<Rightarrow> BotDetectionResult" where
  "mergeResult behaviorResult hp st_stats =
     (let finalBotScore = score behaviorResult + (if hp then 100 else 0);
          allReasons = reasons behaviorResult @ (if hp then [''Honeypot field filled''] else [])
      in \<lparr> score = finalBotScore, reasons = allReasons,
           isBot = (finalBotScore \<ge> 50 \<or> hp),
           stats = st_stats, honeypotTriggered = hp \<rparr>)"


text \<open>
  \<open>handleSubmit\<close> of the form component. The caller's handlers are functions that either
  complete (\<open>Inr ()\<close>) or raise (\<open>Inl e\<close>); \<open>console.error\<close> appends to a log kept in
  the form state. The result \<open>Inl e\<close> of \<open>handleSubmit\<close> itself would be an error leaving
  the function; \<open>Inr ()\<close> is normal completion.
\<close>

record 'e form_state =
  isSubmitting :: bool
  console_error :: "(string \<times> 'e) list"

text \<open>The body of the \<open>try\<close> block.\<close>

definition handleSubmit_try ::
  "('f \<Rightarrow> BotDetectionResult \<Rightarrow> 'e + unit) \<Rightarrow> (BotDetectionResult \<Rightarrow> 'e + unit) option \<Rightarrow>
   'f \<Rightarrow> bool \<Rightarrow> BotDetectionStats \<Rightarrow> environment \<Rightarrow> int \<Rightarrow> int \<Rightarrow>
   'e form_state \<times> bot_state \<Rightarrow> ('e + unit) \<times> 'e form_state \<times> bot_state" where
  "handleSubmit_try onSubmit onBotDetected formData hp st_stats env currentTime statsTime fb =
     (case fb of (fs, bs) \<Rightarrow>
        case handleFormSubmit bs env currentTime statsTime of (behaviorResult, bs') \<Rightarrow>
          let botDetectionResult = mergeResult behaviorResult hp st_stats
          in if isBot botDetectionResult
             then (case (case onBotDetected of None \<Rightarrow> Inr ()
                         | Some f \<Rightarrow> f botDetectionResult) of
                     Inl e \<Rightarrow> (Inl e, fs, bs')
                   | Inr u \<Rightarrow> (Inr (), fs \<lparr> isSubmitting := False \<rparr>, bs'))
             else (case onSubmit formData botDetectionResult of
                     Inl e \<Rightarrow> (Inl e, fs, bs')
                   | Inr u \<Rightarrow> (Inr (), fs, bs')))"

text \<open>The \<open>catch\<close> clause and the \<open>finally\<close> clause.\<close>

definition handleSubmit_catch ::
  "('e + unit) \<times> 'e form_state \<times> bot_state \<Rightarrow> ('e + unit) \<times> 'e form_state \<times> bot_state" where
  "handleSubmit_catch r =
     (case r of
        (Inl error, fs, bs) \<Rightarrow>
          (Inr (), fs \<lparr> console_error := console_error fs @ [(''Form submission error:'', error)] \<rparr>, bs)
      | (Inr u, fs, bs) \<Rightarrow> (Inr u, fs, bs))"

definition handleSubmit_finally ::
  "('e + unit) \<times> 'e form_state \<times> bot_state \<Rightarrow> ('e + unit) \<times> 'e form_state \<times> bot_state" where
  "handleSubmit_finally r = (case r of (res, fs, bs) \<Rightarrow> (res, fs \<lparr> isSubmitting := False \<rparr>, bs))"

definition handleSubmit ::
  "('f \<Rightarrow> BotDetectionResult \<Rightarrow> 'e + unit) \<Rightarrow> (BotDetectionResult \<Rightarrow> 'e + unit) option \<Rightarrow>
   'f \<Rightarrow> bool \<Rightarrow> BotDetectionStats \<Rightarrow> environment \<Rightarrow> int \<Rightarrow> int \<Rightarrow>
   'e form_state \<times> bot_state \<Rightarrow> ('e + unit) \<times> 'e form_state \<times> bot_state" where
  "handleSubmit onSubmit onBotDetected formData hp st_stats env currentTime statsTime fb =
     (case fb of (fs, bs) \<Rightarrow>
        handleSubmit_finally (handleSubmit_catch
          (handleSubmit_try onSubmit onBotDetected formData hp st_stats env currentTime statsTime
             (fs \<lparr> isSubmitting := True \<rparr>, bs))))"

text \<open>The submit button is rendered with \<open>disabled={isSubmitting}\<close>.\<close>

definition submitDisabled :: "'e form_state \<Rightarrow> bool" where
  "submitDisabled fs = isSubmitting fs"

section \<open>The honeypot trap (components/honeypot.tsx, src/src/hooks/use-honeypot.tsx)\<close>

text \<open>
  A JavaScript string is a sequence of 16-bit code units. \<open>String.prototype.trim\<close>
  removes leading and trailing WhiteSpace and LineTerminator code points.
\<close>

type_synonym js_string = "16 word list"

definition isWhiteSpace :: "16 word \<Rightarrow> bool" where
  "isWhiteSpace c =
     (c \<in> set [0x0009, 0x000A, 0x000B, 0x000C, 0x000D, 0x0020, 0x00A0, 0x1680,
               0x2000, 0x2001, 0x2002, 0x2003, 0x2004, 0x2005, 0x2006, 0x2007,
               0x2008, 0x2009, 0x200A, 0x2028, 0x2029, 0x202F, 0x205F, 0x3000, 0xFEFF])"

definition trim :: "js_string \<Rightarrow> js_string" where
  "trim v = rev (dropWhile isWhiteSpace (rev (dropWhile isWhiteSpace v)))"

text \<open>
  \<open>handleFieldChange value hasTriggered\<close> returns the new content of the
  \<open>hasTriggered\<close> ref and whether \<open>onBotDetected()\<close> was called.
\<close>

definition handleFieldChange :: "js_string \<Rightarrow> bool \<Rightarrow> bool \<times> bool" where
  "handleFieldChange v hasTriggered =
     (if trim v \<noteq> [] \<and> \<not> hasTriggered then (True, True) else (hasTriggered, False))"

text \<open>
  A change event carries the field's name and its new value. \<open>honeypot_run\<close> feeds a
  sequence of change events to one mounted \<open>Honeypot\<close> and lists, event by event,
  whether the callback was called.
\<close>

type_synonym change_event = "string \<times> js_string"

fun honeypot_run :: "change_event list \<Rightarrow> bool \<Rightarrow> bool list" where
  "honeypot_run [] hasTriggered = []"
| "honeypot_run (e # es) hasTriggered =
     (case handleFieldChange (snd e) hasTriggered of
        (hasTriggered', called) \<Rightarrow> called # honeypot_run es hasTriggered')"

text \<open>Position of the first event with a non-blank value, if any.\<close>

fun first_fill :: "change_event list \<Rightarrow> nat option" where
  "first_fill [] = None"
| "first_fill (e # es) =
     (if trim (snd e) \<noteq> [] then Some 0 else map_option Suc (first_fill es))"

text \<open>The \<open>useHoneypot\<close> hook.\<close>

record honeypot_hook =
  isBotDetected :: bool
  hp_botScore :: int

definition useHoneypot_init :: honeypot_hook where
  "useHoneypot_init = \<lparr> isBotDetected = False, hp_botScore = 0 \<rparr>"

definition handleBotDetected :: "honeypot_hook \<Rightarrow> honeypot_hook" where
  "handleBotDetected h = h \<lparr> isBotDetected := True, hp_botScore := hp_botScore h + 50 \<rparr>"

definition resetDetection :: "honeypot_hook \<Rightarrow> honeypot_hook" where
  "resetDetection h = h \<lparr> isBotDetected := False, hp_botScore := 0 \<rparr>"

text \<open>
  The hook's \<open>HoneypotComponent\<close>: a \<open>Honeypot\<close> whose \<open>onBotDetected\<close> is
  \<open>handleBotDetected\<close>. The pair is the hook state and the component's \<open>hasTriggered\<close>
  ref; the second component of the result tells whether the callback was called.
\<close>

definition HoneypotComponent_change ::
  "js_string \<Rightarrow> honeypot_hook \<times> bool \<Rightarrow> (honeypot_hook \<times> bool) \<times> bool" where
  "HoneypotComponent_change v hs =
     (case hs of (h, hasTriggered) \<Rightarrow>
        case handleFieldChange v hasTriggered of
          (hasTriggered', called) \<Rightarrow>
            ((if called then handleBotDetected h else h, hasTriggered'), called))"

text \<open>\<open>resetDetection\<close> called while the component stays mounted.\<close>

definition HoneypotComponent_reset :: "honeypot_hook \<times> bool \<Rightarrow> honeypot_hook \<times> bool" where
  "HoneypotComponent_reset hs = (case hs of (h, hasTriggered) \<Rightarrow> (resetDetection h, hasTriggered))"

section \<open>Sessions: sequences of events\<close>

text \<open>A key event is the key and the value of \<open>Date.now()\<close> when it arrives.\<close>

fun key_run :: "(string \<times> int) list \<Rightarrow> bot_state \<Rightarrow> bot_state" where
  "key_run [] st = st"
| "key_run (e # es) st = key_run es (trackKeyPress (fst e) (snd e) st)"

fun mouse_run :: "(rat \<times> rat \<times> int) list \<Rightarrow> bot_state \<Rightarrow> bot_state" where
  "mouse_run [] st = st"
| "mouse_run (e # es) st =
     mouse_run es (trackMouseMovement (fst e) (fst (snd e)) (snd (snd e)) st)"

text \<open>The sample pushed by the \<open>i\<close>-th key event of a session (counting from 0).\<close>

definition recorded :: "(string \<times> int) list \<Rightarrow> int \<Rightarrow> nat \<Rightarrow> TypingPattern" where
  "recorded evs start i = last (typingPatterns (key_run (take (Suc i) evs) (useBotDetection_init start)))"

section \<open>Notions used to state the properties\<close>

text \<open>
  The consecutive Manhattan distances of a list of samples (one fewer than the samples)
  and the arithmetic mean of a list.
\<close>

definition manhattan_steps :: "MouseMovement list \<Rightarrow> rat list" where
  "manhattan_steps ms =
     map (\<lambda>(prev, m). fadd \<bar>fsub (mouse_x m) (mouse_x prev)\<bar> \<bar>fsub (mouse_y m) (mouse_y prev)\<bar>)
         (zip ms (tl ms))"

text \<open>The same distances in exact arithmetic.\<close>

definition exact_steps :: "MouseMovement list \<Rightarrow> rat list" where
  "exact_steps ms =
     map (\<lambda>(prev, m). \<bar>mouse_x m - mouse_x prev\<bar> + \<bar>mouse_y m - mouse_y prev\<bar>) (zip ms (tl ms))"

text \<open>A sample whose coordinates are integers of magnitude at most \<open>2^40\<close>.\<close>

definition int_coords :: "MouseMovement \<Rightarrow> bool" where
  "int_coords m \<longleftrightarrow>
     mouse_x m \<in> \<int> \<and> mouse_y m \<in> \<int> \<and> \<bar>mouse_x m\<bar> \<le> 2 ^ 40 \<and> \<bar>mouse_y m\<bar> \<le> 2 ^ 40"

text \<open>The exact arithmetic mean, and the mean as double arithmetic computes it from left to right.\<close>

definition mean :: "rat list \<Rightarrow> rat" where
  "mean xs = sum_list xs / of_nat (length xs)"

definition double_mean :: "rat list \<Rightarrow> rat" where
  "double_mean xs = fdiv (foldl fadd 0 xs) (of_nat (length xs))"

text \<open>The \<open>n\<close> most recent elements of a buffer that grows at its end.\<close>

definition most_recent :: "nat \<Rightarrow> 'a list \<Rightarrow> 'a list" where
  "most_recent n xs = rev (take n (rev xs))"

text \<open>The condition of block 6, named.\<close>

definition headless :: "environment \<Rightarrow> bool" where
  "headless env =
     (case window_outer env of None \<Rightarrow> False
      | Some (outerWidth, outerHeight) \<Rightarrow> outerWidth = 0 \<or> outerHeight = 0)"

text \<open>The rules in evaluation order, with the weight each adds to the score.\<close>

definition rule_weights :: "(string \<times> int) list" where
  "rule_weights =
     [(''No natural mouse movement detected'', 30),
      (''Unnatural mouse movement patterns'', 20),
      (''Unnaturally consistent typing pattern'', 15),
      (''Superhuman typing speed detected'', 20),
      (''Form filled too quickly'', 40),
      (''Insufficient focus interactions'', 15),
      (''Automated browser detected'', 25),
      (''Headless browser indicators'', 35)]"

definition weight :: "string \<Rightarrow> int" where
  "weight r = (case map_of rule_weights r of Some w \<Rightarrow> w | None \<Rightarrow> 0)"

section \<open>Concrete sessions\<close>

text \<open>A \<open>Math.pow\<close> that returns the correctly rounded power for exponents 0, 1, 2, ...\<close>

definition pow_rounded :: "rat \<Rightarrow> rat \<Rightarrow> rat" where
  "pow_rounded x y = fl (x ^ nat \<lfloor>y\<rfloor>)"

definition no_automation :: environment where
  "no_automation =
     \<lparr> navigator_webdriver = Some False, window_outer = Some (1280, 800),
       Math_pow = pow_rounded \<rparr>"

text \<open>
  \<open>n\<close> keys pressed every \<open>d\<close> ms, the first one three seconds after the form was
  mounted.
\<close>

definition keys_every :: "int \<Rightarrow> nat \<Rightarrow> (string \<times> int) list" where
  "keys_every d n = map (\<lambda>i. (''a'', 1700000003000 + d * int i)) [0 ..< n]"

definition ten_keys :: bot_state where
  "ten_keys = key_run (keys_every 30 10) (useBotDetection_init 1700000000000)"

definition eleven_keys :: bot_state where
  "eleven_keys = key_run (keys_every 30 11) (useBotDetection_init 1700000000000)"

definition twenty_keys_50ms :: bot_state where
  "twenty_keys_50ms = key_run (keys_every 50 20) (useBotDetection_init 1700000000000)"

text \<open>Five pointer samples on a horizontal line, 6 pixels apart.\<close>

definition five_moves :: bot_state where
  "five_moves =
     mouse_run [(0, 0, 1700000001000), (6, 0, 1700000001010), (12, 0, 1700000001020),
                (18, 0, 1700000001030), (24, 0, 1700000001040)]
       (useBotDetection_init 1700000000000)"

text \<open>
  Five pointer samples on a horizontal line at the doubles nearest to 34.9, 20.5, 16.1, 13
  and 9.9.
\<close>

definition frac_moves :: bot_state where
  "frac_moves =
     mouse_run [(4911738343600947 / 2 ^ 47, 0, 1700000001000), (41 / 2, 0, 1700000001010),
                (2265873562520781 / 2 ^ 47, 0, 1700000001020), (13, 0, 1700000001030),
                (5573204538870989 / 2 ^ 49, 0, 1700000001040)]
       (useBotDetection_init 1700000000000)"

text \<open>The value \<open>"spam"\<close> and a value of three spaces.\<close>

definition spam :: js_string where
  "spam = [0x73, 0x70, 0x61, 0x6D]"

definition blanks :: js_string where
  "blanks = [0x20, 0x20, 0x20]"


section \<open>Facts about rounding\<close>

lemma round_half_even_of_int: "round_half_even (of_int k) = k"
  by (simp add: round_half_even_def)

lemma round_half_even_ge:
  assumes "of_int k \<le> m"
  shows "k \<le> round_half_even m"
proof -
  have "k \<le> \<lfloor>m\<rfloor>" using assms by (simp add: le_floor_iff)
  then show ?thesis by (simp add: round_half_even_def Let_def)
qed

lemma round_half_even_le:
  assumes "m \<le> of_int k"
  shows "round_half_even m \<le> k"
proof (cases "m = of_int k")
  case True
  then show ?thesis by (simp add: round_half_even_of_int)
next
  case False
  then have "m < of_int k" using assms by simp
  then have "\<lfloor>m\<rfloor> < k" by (simp add: floor_less_iff)
  then show ?thesis by (simp add: round_half_even_def Let_def)
qed

lemma expo_lower:
  assumes "0 < x"
  shows "2 powi expo x \<le> x"
proof -
  obtain p q where pq: "quotient_of x = (p, q)" by (cases "quotient_of x")
  then have q: "0 < q" and x: "x = of_int p / of_int q"
    using quotient_of_denom_pos [OF pq] quotient_of_div [OF pq] by simp_all
  have p: "0 < p" using assms q x by (simp add: zero_less_divide_iff)
  let ?e0 = "bitlen p - bitlen q"
  show ?thesis
  proof (cases "x < 2 powi ?e0")
    case False
    then show ?thesis using pq by (simp add: expo_def Let_def)
  next
    case True
    have bp: "0 < bitlen p"
      using p bitlen_eq_zero_iff [of p] bitlen_nonneg [of p] by linarith
    have bq: "0 \<le> bitlen q" by (rule bitlen_nonneg)
    have "(2::int) ^ nat (bitlen p - 1) \<le> p" using bitlen_bounds [OF p] by simp
    then have "(of_int ((2::int) ^ nat (bitlen p - 1)) :: rat) \<le> of_int p"
      by (simp only: of_int_le_iff)
    then have lo: "(2::rat) powi (bitlen p - 1) \<le> of_int p"
      using bp by (simp add: power_int_nonneg_exp)
    have "q < 2 ^ nat (bitlen q)" using bitlen_bounds [OF q] by simp
    then have "(of_int q :: rat) < of_int ((2::int) ^ nat (bitlen q))"
      by (simp only: of_int_less_iff)
    then have hi: "(of_int q :: rat) < 2 powi (bitlen q)"
      using bq by (simp add: power_int_nonneg_exp)
    have e: "?e0 - 1 = (bitlen p - 1) - bitlen q" by simp
    have "(2::rat) powi (?e0 - 1) = 2 powi (bitlen p - 1) / 2 powi (bitlen q)"
      unfolding e by (rule power_int_diff) simp
    also have "\<dots> \<le> of_int p / 2 powi (bitlen q)"
      using lo by (simp add: divide_right_mono)
    also have "\<dots> \<le> of_int p / of_int q"
      using hi q p by (simp add: frac_le)
    finally show ?thesis using True pq x by (simp add: expo_def Let_def)
  qed
qed

lemma ulp_exp_le:
  assumes "0 < x" and "x < 2 powi E" and "- 1074 \<le> j" and "E - 53 \<le> j"
  shows "ulp_exp x \<le> j"
proof -
  have "(2::rat) powi expo x < 2 powi E"
    using expo_lower [OF assms(1)] assms(2) by simp
  then have "expo x < E"
    using power_int_increasing [of E "expo x" "2::rat"] by (cases "expo x < E") auto
  then show ?thesis using assms(3,4) by (simp add: ulp_exp_def)
qed


lemma fl_0: "fl 0 = 0"
  by (simp add: fl_def)

lemma fl_pos: "0 < x \<Longrightarrow> fl x = of_int (round_half_even (x / 2 powi ulp_exp x)) * 2 powi ulp_exp x"
  by (simp add: fl_def Let_def)

lemma fl_minus: "fl (- x) = - fl x"
  by (simp add: fl_def Let_def sgn_minus)

lemma grid_refine:
  assumes "u \<le> j"
  shows "(of_int k :: rat) * 2 powi j = of_int (k * 2 ^ nat (j - u)) * 2 powi u"
proof -
  have "(2::rat) powi j = 2 powi (j - u) * 2 powi u"
    using power_int_add [of "2::rat" "j - u" u] by simp
  also have "(2::rat) powi (j - u) = 2 ^ nat (j - u)"
    using assms by (simp add: power_int_nonneg_exp)
  finally show ?thesis by simp
qed

lemma fl_grid_ge:
  assumes "0 < x" and "of_int k * 2 powi j \<le> x" and "ulp_exp x \<le> j"
  shows "of_int k * 2 powi j \<le> fl x"
proof -
  let ?u = "ulp_exp x"
  let ?K = "k * 2 ^ nat (j - ?u)"
  have p: "(0::rat) < 2 powi ?u" by simp
  have g: "(of_int k :: rat) * 2 powi j = of_int ?K * 2 powi ?u"
    by (rule grid_refine [OF assms(3)])
  have "of_int ?K * 2 powi ?u \<le> x" using assms(2) unfolding g .
  then have "of_int ?K \<le> x / 2 powi ?u"
    using p by (simp add: pos_le_divide_eq)
  then have "?K \<le> round_half_even (x / 2 powi ?u)"
    by (rule round_half_even_ge)
  then have "(of_int ?K :: rat) \<le> of_int (round_half_even (x / 2 powi ?u))"
    by (simp only: of_int_le_iff)
  then have "(of_int ?K :: rat) * 2 powi ?u \<le> of_int (round_half_even (x / 2 powi ?u)) * 2 powi ?u"
    by (intro mult_right_mono) simp_all
  then show ?thesis
    unfolding g fl_pos [OF assms(1)] .
qed

lemma fl_grid_le:
  assumes "0 < x" and "x \<le> of_int k * 2 powi j" and "ulp_exp x \<le> j"
  shows "fl x \<le> of_int k * 2 powi j"
proof -
  let ?u = "ulp_exp x"
  let ?K = "k * 2 ^ nat (j - ?u)"
  have p: "(0::rat) < 2 powi ?u" by simp
  have g: "(of_int k :: rat) * 2 powi j = of_int ?K * 2 powi ?u"
    by (rule grid_refine [OF assms(3)])
  have "x \<le> of_int ?K * 2 powi ?u" using assms(2) unfolding g .
  then have "x / 2 powi ?u \<le> of_int ?K"
    using p by (simp add: pos_divide_le_eq)
  then have "round_half_even (x / 2 powi ?u) \<le> ?K"
    by (rule round_half_even_le)
  then have "(of_int (round_half_even (x / 2 powi ?u)) :: rat) \<le> of_int ?K"
    by (simp only: of_int_le_iff)
  then have "(of_int (round_half_even (x / 2 powi ?u)) :: rat) * 2 powi ?u \<le> of_int ?K * 2 powi ?u"
    by (intro mult_right_mono) simp_all
  then show ?thesis
    unfolding g fl_pos [OF assms(1)] .
qed

lemma fl_of_int_pos:
  assumes "0 < k" and "k < 2 ^ 53"
  shows "fl (of_int k) = of_int k"
proof -
  have x: "(0::rat) < of_int k" using assms(1) by simp
  have "(of_int k :: rat) < of_int (2 ^ 53)" using assms(2) by (simp only: of_int_less_iff)
  then have "(of_int k :: rat) < 2 powi 53" by simp
  then have u: "ulp_exp (of_int k) \<le> 0"
    by (rule ulp_exp_le [OF x]) simp_all
  have "of_int k * 2 powi 0 \<le> fl (of_int k)"
    by (rule fl_grid_ge [OF x _ u]) simp
  moreover have "fl (of_int k) \<le> of_int k * 2 powi 0"
    by (rule fl_grid_le [OF x _ u]) simp
  ultimately show ?thesis by simp
qed

lemma fl_of_int:
  assumes "\<bar>k\<bar> < 2 ^ 53"
  shows "fl (of_int k) = of_int k"
proof -
  consider "0 < k" | "k = 0" | "k < 0" by linarith
  then show ?thesis
  proof cases
    case 1
    then show ?thesis using assms by (simp add: fl_of_int_pos)
  next
    case 2
    then show ?thesis by (simp add: fl_0)
  next
    case 3
    then have "fl (of_int (- k)) = of_int (- k)"
      using assms by (intro fl_of_int_pos) simp_all
    then show ?thesis by (simp add: fl_minus)
  qed
qed

text \<open>
  A quotient of a non-negative integer by a count of at most 32 is below an integer
  threshold after rounding exactly when it is below it before rounding.
\<close>

lemma fl_quotient_less_iff:
  fixes S c :: int and n :: nat
  assumes S: "0 \<le> S" "S < 2 ^ 53" and n: "0 < n" "n \<le> 32" and c: "0 < c" "c \<le> 2 ^ 40"
  shows "fl (of_int S / of_nat n) < of_int c \<longleftrightarrow> (of_int S / of_nat n :: rat) < of_int c"
proof (cases "S = 0")
  case True
  then show ?thesis using c by (simp add: fl_0)
next
  case False
  let ?x = "of_int S / of_nat n :: rat"
  have x: "0 < ?x" using False S n by simp
  have xS: "?x \<le> of_int S"
  proof -
    have "(1::rat) \<le> of_nat n" using n by simp
    then have "(of_int S :: rat) / of_nat n \<le> of_int S / 1"
      using S by (intro divide_left_mono) simp_all
    then show ?thesis by simp
  qed
  show ?thesis
  proof
    assume "?x < of_int c"
    then have "(of_int S :: rat) < of_int c * of_nat n"
      using n by (simp add: pos_divide_less_eq)
    then have "(of_int S :: rat) < of_int (c * int n)" by simp
    then have "S < c * int n" by (simp only: of_int_less_iff)
    then have "S \<le> c * int n - 1" by simp
    then have "(of_int S :: rat) \<le> of_int (c * int n - 1)" by (simp only: of_int_le_iff)
    then have "(of_int S :: rat) \<le> of_int c * of_nat n - 1" by simp
    then have "?x \<le> (of_int c * of_nat n - 1) / of_nat n"
      using n by (simp add: divide_right_mono)
    also have "\<dots> = of_int c - 1 / of_nat n"
      using n by (simp add: field_simps)
    also have "\<dots> \<le> of_int c - 1 / 32"
    proof -
      have "(of_nat n :: rat) \<le> 32" using n(2) by (metis of_nat_le_iff of_nat_numeral)
      then have "(1::rat) / 32 \<le> 1 / of_nat n"
        using n(1) by (intro divide_left_mono) simp_all
      then show ?thesis by simp
    qed
    also have "\<dots> = of_int (32 * c - 1) * 2 powi (- 5)"
      by (simp add: power_int_minus field_simps)
    finally have le: "?x \<le> of_int (32 * c - 1) * 2 powi (- 5)" .
    have "(of_int c :: rat) \<le> of_int (2 ^ 40)" using c(2) by (simp only: of_int_le_iff)
    then have "?x < 2 powi 40" using \<open>?x < of_int c\<close> by simp
    then have u: "ulp_exp ?x \<le> - 5"
      by (rule ulp_exp_le [OF x]) simp_all
    have "fl ?x \<le> of_int (32 * c - 1) * 2 powi (- 5)"
      by (rule fl_grid_le [OF x le u])
    also have "\<dots> = of_int c - 1 / 32"
      by (simp add: power_int_minus field_simps)
    finally show "fl ?x < of_int c" by simp
  next
    assume f: "fl ?x < of_int c"
    show "?x < of_int c"
    proof (rule ccontr)
      assume "\<not> ?x < of_int c"
      then have ge: "of_int c * 2 powi 0 \<le> ?x" by simp
      have "(of_int S :: rat) < of_int (2 ^ 53)" using S(2) by (simp only: of_int_less_iff)
      then have "?x < 2 powi 53" using xS by simp
      then have u: "ulp_exp ?x \<le> 0"
        by (rule ulp_exp_le [OF x]) simp_all
      have "of_int c * 2 powi 0 \<le> fl ?x"
        by (rule fl_grid_ge [OF x ge u])
      then show False using f by simp
    qed
  qed
qed


lemma fl_numeral: "(numeral k :: int) < 2 ^ 53 \<Longrightarrow> fl (numeral k) = numeral k"
  using fl_of_int [of "numeral k"] by simp

lemma fadd_of_int:
  "\<bar>a + b\<bar> < 2 ^ 53 \<Longrightarrow> fadd (of_int a) (of_int b) = of_int (a + b)"
  using fl_of_int [of "a + b"] by (simp add: fadd_def)

lemma fsub_of_int:
  "\<bar>a - b\<bar> < 2 ^ 53 \<Longrightarrow> fsub (of_int a) (of_int b) = of_int (a - b)"
  using fl_of_int [of "a - b"] by (simp add: fsub_def)

lemma foldl_fadd_of_int:
  assumes "\<forall>x\<in>set xs. 0 \<le> x" and "0 \<le> a" and "a + sum_list xs < 2 ^ 53"
  shows "foldl fadd (of_int a) (map of_int xs) = of_int (a + sum_list xs)"
  using assms
proof (induction xs arbitrary: a)
  case Nil
  then show ?case by simp
next
  case (Cons x xs)
  have s: "0 \<le> sum_list xs" using Cons.prems(1) by (simp add: sum_list_nonneg)
  have x: "0 \<le> x" using Cons.prems(1) by simp
  have "\<bar>a + x\<bar> < 2 ^ 53" using Cons.prems(2,3) s x by simp
  then have f: "fadd (of_int a) (of_int x) = of_int (a + x)" by (rule fadd_of_int)
  have "foldl fadd (of_int (a + x)) (map of_int xs) = of_int ((a + x) + sum_list xs)"
    using Cons.prems x by (intro Cons.IH) (simp_all add: add.assoc)
  then show ?case by (simp add: f add.assoc)
qed

lemma reduce_add_of_int:
  assumes "\<forall>x\<in>set xs. 0 \<le> x" and "sum_list xs < 2 ^ 53"
  shows "reduce_add (map of_int xs) = of_int (sum_list xs)"
  using foldl_fadd_of_int [of xs 0] assms by (simp add: reduce_add_def)

lemma reduce_add_Cons_0: "reduce_add (0 # xs) = reduce_add xs"
  by (simp add: reduce_add_def fadd_def fl_0)

section \<open>The filtered key intervals\<close>

lemma slice_last_most_recent: "slice_last n xs = most_recent n xs"
proof -
  have "rev (take n (rev xs)) = drop (length xs - n) xs"
    by (simp add: take_rev)
  then show ?thesis by (simp add: slice_last_def most_recent_def)
qed

lemma length_slice_last: "length (slice_last n xs) \<le> n"
  by (simp add: slice_last_def)

lemma intervals_nonneg: "\<forall>t\<in>set (intervals st). 0 \<le> t"
  by (auto simp add: intervals_def)

lemma intervals_less: "\<forall>t\<in>set (intervals st). t < 1000"
  by (auto simp add: intervals_def)

lemma length_intervals: "length (intervals st) \<le> 20"
proof -
  have "length (intervals st) \<le> length (slice_last 20 (typingPatterns st))"
    unfolding intervals_def by (rule order_trans [OF length_filter_le]) simp
  then show ?thesis using length_slice_last [of 20 "typingPatterns st"] by linarith
qed

lemma sum_list_bounded:
  fixes xs :: "int list"
  assumes "\<forall>x\<in>set xs. x < b"  and "0 \<le> b"
  shows "sum_list xs \<le> b * int (length xs)"
  using assms by (induction xs) (auto simp: algebra_simps)

lemma sum_intervals: "0 \<le> sum_list (intervals st) \<and> sum_list (intervals st) < 2 ^ 53"
proof -
  have "sum_list (intervals st) \<le> 1000 * int (length (intervals st))"
    by (intro sum_list_bounded intervals_less) simp
  also have "\<dots> \<le> 1000 * 20" using length_intervals [of st] by simp
  finally have "sum_list (intervals st) < 2 ^ 53" by simp
  moreover have "0 \<le> sum_list (intervals st)"
    using intervals_nonneg [of st] by (intro sum_list_nonneg) simp
  ultimately show ?thesis by blast
qed

lemma avgInterval_eq:
  "avgInterval st = fl (of_int (sum_list (intervals st)) / of_nat (length (intervals st)))"
proof -
  have "reduce_add (map of_int (intervals st)) = of_int (sum_list (intervals st))"
    using sum_intervals [of st]
    by (intro reduce_add_of_int intervals_nonneg) simp
  then show ?thesis by (simp add: avgInterval_def fdiv_def)
qed

lemma mean_of_int: "mean (map of_int xs) = of_int (sum_list xs) / of_nat (length xs)"
proof -
  have "sum_list (map of_int xs) = (of_int (sum_list xs) :: rat)"
    by (induction xs) simp_all
  then show ?thesis by (simp add: mean_def)
qed

lemma avgInterval_less_50:
  assumes "0 < length (intervals st)"
  shows "avgInterval st < 50 \<longleftrightarrow> mean (map of_int (intervals st)) < 50"
proof -
  have "fl (of_int (sum_list (intervals st)) / of_nat (length (intervals st))) < of_int 50
      \<longleftrightarrow> (of_int (sum_list (intervals st)) / of_nat (length (intervals st)) :: rat) < of_int 50"
    using sum_intervals [of st] assms length_intervals [of st]
    by (intro fl_quotient_less_iff) simp_all
  then show ?thesis by (simp add: avgInterval_eq mean_of_int)
qed


section \<open>The scorer as a sum of rule contributions\<close>

lemma checkMouse_acc:
  "checkMouse st (s, rs) =
     (s + (if \<not> hasMouseMovement st \<or> length (mouseMovements st) < 5 then 30
           else if avgVariation st < 5 then 20 else 0),
      rs @ (if \<not> hasMouseMovement st \<or> length (mouseMovements st) < 5
            then [''No natural mouse movement detected'']
            else if avgVariation st < 5 then [''Unnatural mouse movement patterns''] else []))"
  by (simp add: checkMouse_def)

lemma checkTyping_acc:
  "checkTyping env st (s, rs) =
     (s + (if length (typingPatterns st) > 10 \<and> length (intervals st) > 5 \<and> variance env st < 100
           then 15 else 0)
        + (if length (typingPatterns st) > 10 \<and> length (intervals st) > 5 \<and> avgInterval st < 50
           then 20 else 0),
      rs @ (if length (typingPatterns st) > 10 \<and> length (intervals st) > 5 \<and> variance env st < 100
            then [''Unnaturally consistent typing pattern''] else [])
         @ (if length (typingPatterns st) > 10 \<and> length (intervals st) > 5 \<and> avgInterval st < 50
            then [''Superhuman typing speed detected''] else []))"
  by (simp add: checkTyping_def checkVariance_def checkSpeed_def)

lemma checkTotalTime_acc:
  "checkTotalTime st t (s, rs) =
     (s + (if t - formStartTime st < 2000 then 40 else 0),
      rs @ (if t - formStartTime st < 2000 then [''Form filled too quickly''] else []))"
  by (simp add: checkTotalTime_def)

lemma checkFocus_acc:
  "checkFocus st (s, rs) =
     (s + (if focusEvents st < 2 then 15 else 0),
      rs @ (if focusEvents st < 2 then [''Insufficient focus interactions''] else []))"
  by (simp add: checkFocus_def)

lemma checkWebdriver_acc:
  "checkWebdriver env (s, rs) =
     (s + (if navigator_webdriver env = Some True then 25 else 0),
      rs @ (if navigator_webdriver env = Some True then [''Automated browser detected''] else []))"
  by (auto simp add: checkWebdriver_def)

lemma checkHeadless_acc:
  "checkHeadless env (s, rs) =
     (s + (if headless env then 35 else 0),
      rs @ (if headless env then [''Headless browser indicators''] else []))"
  by (simp add: checkHeadless_def headless_def)

lemmas check_acc = checkMouse_acc checkTyping_acc checkTotalTime_acc checkFocus_acc
  checkWebdriver_acc checkHeadless_acc

lemma analyze_reasons:
  "reasons (analyzeBehavior st env t t') =
     (if \<not> hasMouseMovement st \<or> length (mouseMovements st) < 5
            then [''No natural mouse movement detected'']
            else if avgVariation st < 5 then [''Unnatural mouse movement patterns''] else [])
      @ (if length (typingPatterns st) > 10 \<and> length (intervals st) > 5 \<and> variance env st < 100
            then [''Unnaturally consistent typing pattern''] else [])
      @ (if length (typingPatterns st) > 10 \<and> length (intervals st) > 5 \<and> avgInterval st < 50
            then [''Superhuman typing speed detected''] else [])
      @ (if t - formStartTime st < 2000 then [''Form filled too quickly''] else [])
      @ (if focusEvents st < 2 then [''Insufficient focus interactions''] else [])
      @ (if navigator_webdriver env = Some True then [''Automated browser detected''] else [])
      @ (if headless env then [''Headless browser indicators''] else [])"
  unfolding analyzeBehavior_def check_acc by simp

lemma analyze_score:
  "score (analyzeBehavior st env t t') =
     (if \<not> hasMouseMovement st \<or> length (mouseMovements st) < 5 then 30
           else if avgVariation st < 5 then 20 else 0)
      + (if length (typingPatterns st) > 10 \<and> length (intervals st) > 5 \<and> variance env st < 100
           then 15 else 0)
      + (if length (typingPatterns st) > 10 \<and> length (intervals st) > 5 \<and> avgInterval st < 50
           then 20 else 0)
      + (if t - formStartTime st < 2000 then 40 else 0)
      + (if focusEvents st < 2 then 15 else 0)
      + (if navigator_webdriver env = Some True then 25 else 0)
      + (if headless env then 35 else 0)"
  unfolding analyzeBehavior_def check_acc by simp

lemma weight_simps:
  "weight ''No natural mouse movement detected'' = 30"
  "weight ''Unnatural mouse movement patterns'' = 20"
  "weight ''Unnaturally consistent typing pattern'' = 15"
  "weight ''Superhuman typing speed detected'' = 20"
  "weight ''Form filled too quickly'' = 40"
  "weight ''Insufficient focus interactions'' = 15"
  "weight ''Automated browser detected'' = 25"
  "weight ''Headless browser indicators'' = 35"
  by (simp_all add: weight_def rule_weights_def)

lemma sum_weight_opt: "sum_list (map weight (if b then [r] else [])) = (if b then weight r else 0)"
  by simp

lemma score_sum_weights:
  "score (analyzeBehavior st env t t') = sum_list (map weight (reasons (analyzeBehavior st env t t')))"
  unfolding analyze_reasons analyze_score map_append sum_list_append
  by (simp add: weight_simps)

lemma subseq_opt: "subseq (if b then [r] else []) [r]"
  by simp

lemma subseq_opt2: "subseq (if b then [r] else if c then [r'] else []) ([r] @ [r'])"
  by simp

lemma reasons_ordered:
  "subseq (reasons (analyzeBehavior st env t t')) (map fst rule_weights)"
proof -
  have n: "map fst rule_weights =
     ([''No natural mouse movement detected''] @ [''Unnatural mouse movement patterns''])
     @ [''Unnaturally consistent typing pattern''] @ [''Superhuman typing speed detected'']
     @ [''Form filled too quickly''] @ [''Insufficient focus interactions'']
     @ [''Automated browser detected''] @ [''Headless browser indicators'']"
    by (simp add: rule_weights_def)
  show ?thesis
    unfolding n analyze_reasons
    by (intro list_emb_append_mono subseq_opt subseq_opt2)
qed

lemma distinct_rule_names: "distinct (map fst rule_weights)"
  by (simp add: rule_weights_def)

lemma reasons_distinct: "distinct (reasons (analyzeBehavior st env t t'))"
  using reasons_ordered [of st env t t'] distinct_rule_names
  by (auto simp: subseq_conv_nths)



lemma score_bounds: "0 \<le> score (analyzeBehavior st env t t') \<and> score (analyzeBehavior st env t t') \<le> 180"
proof -
  have b: "0 \<le> (if c then w else 0) \<and> (if c then w else (0::int)) \<le> w" if "0 \<le> w" for c w
    using that by simp
  have b2: "0 \<le> (if c then 30 else if d then 20 else (0::int)) \<and> (if c then 30 else if d then 20 else (0::int)) \<le> 30" for c d
    by simp
  show ?thesis
    unfolding analyze_score
    using b2 [of "\<not> hasMouseMovement st \<or> length (mouseMovements st) < 5" "avgVariation st < 5"]
      b [of 15 "length (typingPatterns st) > 10 \<and> length (intervals st) > 5 \<and> variance env st < 100"]
      b [of 20 "length (typingPatterns st) > 10 \<and> length (intervals st) > 5 \<and> avgInterval st < 50"]
      b [of 40 "t - formStartTime st < 2000"]
      b [of 15 "focusEvents st < 2"]
      b [of 25 "navigator_webdriver env = Some True"]
      b [of 35 "headless env"]
    by linarith
qed


lemma reason_mem:
  "''No natural mouse movement detected'' \<in> set (reasons (analyzeBehavior st env t t'))
     \<longleftrightarrow> \<not> hasMouseMovement st \<or> length (mouseMovements st) < 5"
  "''Unnatural mouse movement patterns'' \<in> set (reasons (analyzeBehavior st env t t'))
     \<longleftrightarrow> \<not> (\<not> hasMouseMovement st \<or> length (mouseMovements st) < 5) \<and> avgVariation st < 5"
  "''Unnaturally consistent typing pattern'' \<in> set (reasons (analyzeBehavior st env t t'))
     \<longleftrightarrow> length (typingPatterns st) > 10 \<and> length (intervals st) > 5 \<and> variance env st < 100"
  "''Superhuman typing speed detected'' \<in> set (reasons (analyzeBehavior st env t t'))
     \<longleftrightarrow> length (typingPatterns st) > 10 \<and> length (intervals st) > 5 \<and> avgInterval st < 50"
  "''Form filled too quickly'' \<in> set (reasons (analyzeBehavior st env t t'))
     \<longleftrightarrow> t - formStartTime st < 2000"
  "''Insufficient focus interactions'' \<in> set (reasons (analyzeBehavior st env t t'))
     \<longleftrightarrow> focusEvents st < 2"
  "''Automated browser detected'' \<in> set (reasons (analyzeBehavior st env t t'))
     \<longleftrightarrow> navigator_webdriver env = Some True"
  "''Headless browser indicators'' \<in> set (reasons (analyzeBehavior st env t t'))
     \<longleftrightarrow> headless env"
  unfolding analyze_reasons by simp_all

lemma score_filter:
  "score (analyzeBehavior st env t t') =
     sum_list (map snd (filter (\<lambda>r. fst r \<in> set (reasons (analyzeBehavior st env t t'))) rule_weights))"
proof -
  have f: "filter P [a,b,c,d,e,f,g,h] = (if P a then [a] else []) @ (if P b then [b] else [])
     @ (if P c then [c] else []) @ (if P d then [d] else []) @ (if P e then [e] else [])
     @ (if P f then [f] else []) @ (if P g then [g] else []) @ (if P h then [h] else [])"
    for P :: "(string \<times> int) \<Rightarrow> bool" and a b c d e f g h
    by simp
  have s: "sum_list (map snd (if b then [r] else [])) = (if b then snd r else 0)"
    for b and r :: "string \<times> int"
    by simp
  show ?thesis
    unfolding rule_weights_def f map_append sum_list_append s fst_conv snd_conv reason_mem
      analyze_score
    by simp
qed


section \<open>Properties\<close>

text \<open>
  C8. A fresh session scored less than 2000 ms after its start, with no mouse sample, no key
  sample and no focus event, has the three reasons "No natural mouse movement detected",
  "Form filled too quickly" and "Insufficient focus interactions" in its list, a score of at
  least 85, and the verdict bot.
\<close>

theorem fresh_session_is_bot:
  assumes "currentTime - formStartTime st < 2000"
      and "mouseMovements st = []" and "typingPatterns st = []" and "focusEvents st = 0"
  shows "''No natural mouse movement detected'' \<in> set (reasons (analyzeBehavior st env currentTime statsTime))
     \<and> ''Form filled too quickly'' \<in> set (reasons (analyzeBehavior st env currentTime statsTime))
     \<and> ''Insufficient focus interactions'' \<in> set (reasons (analyzeBehavior st env currentTime statsTime))
     \<and> score (analyzeBehavior st env currentTime statsTime) \<ge> 85
     \<and> isBot (analyzeBehavior st env currentTime statsTime)"
  using assms
  by (simp add: analyzeBehavior_def checkMouse_def checkTyping_def checkTotalTime_def checkFocus_def
        checkWebdriver_def checkHeadless_def split: option.splits prod.splits)

theorem fresh_session_is_bot_witness:
  "''No natural mouse movement detected''
      \<in> set (reasons (analyzeBehavior (useBotDetection_init 1700000000000) no_automation 1700000000100 1700000000100))
   \<and> ''Form filled too quickly''
      \<in> set (reasons (analyzeBehavior (useBotDetection_init 1700000000000) no_automation 1700000000100 1700000000100))
   \<and> ''Insufficient focus interactions''
      \<in> set (reasons (analyzeBehavior (useBotDetection_init 1700000000000) no_automation 1700000000100 1700000000100))
   \<and> score (analyzeBehavior (useBotDetection_init 1700000000000) no_automation 1700000000100 1700000000100) \<ge> 85
   \<and> isBot (analyzeBehavior (useBotDetection_init 1700000000000) no_automation 1700000000100 1700000000100)"
  using fresh_session_is_bot [of 1700000000100 "useBotDetection_init 1700000000000" no_automation 1700000000100]
  by (simp add: useBotDetection_init_def)

text \<open>
  C10. For every result of the behaviour scorer: the score is the sum of the weights of
  exactly those rules of the table whose reason is in the reasons list (and, the same
  number, the sum of the weights of the listed reasons); the reasons are a subsequence of
  the rule order R1, R2, R3, R4, R5, R6, R7, R8 without duplicates, with never both R1's
  and R2's reason; and the score lies between 0 and 180.
\<close>

theorem score_is_sum_of_listed_rules:
  "score (analyzeBehavior st env t t') =
     sum_list (map snd (filter (\<lambda>r. fst r \<in> set (reasons (analyzeBehavior st env t t'))) rule_weights))
   \<and> score (analyzeBehavior st env t t') = sum_list (map weight (reasons (analyzeBehavior st env t t')))
   \<and> subseq (reasons (analyzeBehavior st env t t')) (map fst rule_weights)
   \<and> distinct (reasons (analyzeBehavior st env t t'))
   \<and> \<not> (''No natural mouse movement detected'' \<in> set (reasons (analyzeBehavior st env t t'))
        \<and> ''Unnatural mouse movement patterns'' \<in> set (reasons (analyzeBehavior st env t t')))
   \<and> 0 \<le> score (analyzeBehavior st env t t') \<and> score (analyzeBehavior st env t t') \<le> 180"
proof -
  have "\<not> (''No natural mouse movement detected'' \<in> set (reasons (analyzeBehavior st env t t'))
        \<and> ''Unnatural mouse movement patterns'' \<in> set (reasons (analyzeBehavior st env t t')))"
    unfolding reason_mem by blast
  with score_filter [of st env t t'] score_sum_weights [of st env t t']
    reasons_ordered [of st env t t'] reasons_distinct [of st env t t'] score_bounds [of st env t t']
  show ?thesis by blast
qed

theorem score_is_sum_of_listed_rules_witness:
  "score (analyzeBehavior (useBotDetection_init 1700000000000) no_automation 1700000000100 1700000000100) = 85
   \<and> reasons (analyzeBehavior (useBotDetection_init 1700000000000) no_automation 1700000000100 1700000000100)
       = [''No natural mouse movement detected'', ''Form filled too quickly'',
          ''Insufficient focus interactions'']
   \<and> sum_list (map weight (reasons (analyzeBehavior (useBotDetection_init 1700000000000)
         no_automation 1700000000100 1700000000100))) = 85
   \<and> subseq (reasons (analyzeBehavior (useBotDetection_init 1700000000000) no_automation
         1700000000100 1700000000100)) (map fst rule_weights)"
  using score_is_sum_of_listed_rules [of "useBotDetection_init 1700000000000" no_automation
      1700000000100 1700000000100]
  by (simp add: analyze_reasons analyze_score useBotDetection_init_def no_automation_def headless_def)

subsection \<open>The honeypot latch\<close>

lemma trim_empty_iff: "trim v = [] \<longleftrightarrow> (\<forall>c\<in>set v. isWhiteSpace c)"
proof (cases "dropWhile isWhiteSpace v")
  case Nil
  have "trim v = []"
    unfolding trim_def Nil by simp
  moreover have "\<forall>c\<in>set v. isWhiteSpace c"
    using Nil by simp
  ultimately show ?thesis by blast
next
  case (Cons c cs)
  then have "\<not> isWhiteSpace c" "c \<in> set v"
    using hd_dropWhile [of isWhiteSpace v] set_dropWhileD [of c isWhiteSpace v] by auto
  moreover have "trim v \<noteq> []"
    unfolding trim_def Cons using \<open>\<not> isWhiteSpace c\<close> by auto
  ultimately show ?thesis by blast
qed

lemma honeypot_run_latched: "honeypot_run es True = replicate (length es) False"
  by (induction es) (simp_all add: handleFieldChange_def)

lemma honeypot_run_trace:
  "honeypot_run evs False =
     (case first_fill evs of None \<Rightarrow> replicate (length evs) False
      | Some i \<Rightarrow> (replicate (length evs) False)[i := True])"
proof (induction evs)
  case Nil
  then show ?case by simp
next
  case (Cons e es)
  show ?case
  proof (cases "trim (snd e) = []")
    case True
    then show ?thesis
      using Cons by (simp add: handleFieldChange_def split: option.splits)
  next
    case False
    then show ?thesis
      by (simp add: handleFieldChange_def honeypot_run_latched)
  qed
qed

lemma first_fill_None: "first_fill evs = None \<longleftrightarrow> (\<forall>e\<in>set evs. trim (snd e) = [])"
  by (induction evs) auto

lemma first_fill_Some:
  "first_fill evs = Some i \<Longrightarrow>
     i < length evs \<and> trim (snd (evs ! i)) \<noteq> [] \<and> (\<forall>j<i. trim (snd (evs ! j)) = [])"
proof (induction evs arbitrary: i)
  case Nil
  then show ?case by simp
next
  case (Cons e es)
  show ?case
  proof (cases "trim (snd e) = []")
    case True
    with Cons.prems obtain k where k: "first_fill es = Some k" "i = Suc k"
      by auto
    from Cons.IH [OF k(1)] True k(2) show ?thesis
      by (auto simp: nth_Cons split: nat.splits)
  next
    case False
    with Cons.prems show ?thesis by simp
  qed
qed

lemma count_replicate_False: "length (filter (\<lambda>c. c) (replicate n False)) = 0"
  by simp

lemma count_single_True:
  "i < n \<Longrightarrow> length (filter (\<lambda>c. c) ((replicate n False)[i := True])) = 1"
proof (induction n arbitrary: i)
  case 0
  then show ?case by simp
next
  case (Suc n)
  then show ?case by (cases i) simp_all
qed

lemma honeypot_run_count:
  "length (filter (\<lambda>c. c) (honeypot_run evs False)) =
     (if \<exists>e\<in>set evs. trim (snd e) \<noteq> [] then 1 else 0)"
proof (cases "first_fill evs")
  case None
  then show ?thesis
    using first_fill_None [of evs] by (simp add: honeypot_run_trace)
next
  case (Some i)
  then have "i < length evs" "\<exists>e\<in>set evs. trim (snd e) \<noteq> []"
    using first_fill_Some [OF Some] first_fill_None [of evs] by auto
  then show ?thesis
    using Some by (simp add: honeypot_run_trace count_single_True)
qed

lemma honeypot_run_blank:
  "\<forall>e\<in>set evs. \<forall>c\<in>set (snd e). isWhiteSpace c \<Longrightarrow> True \<notin> set (honeypot_run evs False)"
proof -
  assume "\<forall>e\<in>set evs. \<forall>c\<in>set (snd e). isWhiteSpace c"
  then have "first_fill evs = None"
    by (simp add: first_fill_None trim_empty_iff)
  then show ?thesis by (simp add: honeypot_run_trace)
qed

text \<open>
  C2. For every sequence of change events fed to a freshly mounted honeypot, the callback is
  called at exactly one event, the first one whose value does not trim to the empty string,
  and at no other event, before or after; the number of calls is 1 when such an event
  exists and 0 otherwise, and a sequence of whitespace-only values never calls it.
\<close>

theorem honeypot_fires_once_at_first_fill:
  "honeypot_run evs False =
     (case first_fill evs of None \<Rightarrow> replicate (length evs) False
      | Some i \<Rightarrow> (replicate (length evs) False)[i := True])
   \<and> (\<forall>i. first_fill evs = Some i \<longrightarrow>
         i < length evs \<and> trim (snd (evs ! i)) \<noteq> [] \<and> (\<forall>j<i. trim (snd (evs ! j)) = []))
   \<and> length (filter (\<lambda>c. c) (honeypot_run evs False)) =
        (if \<exists>e\<in>set evs. trim (snd e) \<noteq> [] then 1 else 0)
   \<and> ((\<forall>e\<in>set evs. \<forall>c\<in>set (snd e). isWhiteSpace c) \<longrightarrow> True \<notin> set (honeypot_run evs False))"
  using honeypot_run_trace [of evs] first_fill_Some [of evs] honeypot_run_count [of evs]
    honeypot_run_blank [of evs]
  by blast

theorem honeypot_fires_once_at_first_fill_witness:
  "honeypot_run [(''hp_website_url'', blanks), (''hp_website_url'', spam), (''hp_fax_number'', spam)] False
     = [False, True, False]
   \<and> first_fill [(''hp_website_url'', blanks), (''hp_website_url'', spam), (''hp_fax_number'', spam)] = Some 1
   \<and> length (filter (\<lambda>c. c) (honeypot_run
        [(''hp_website_url'', blanks), (''hp_website_url'', spam), (''hp_fax_number'', spam)] False)) = 1
   \<and> trim blanks = []
   \<and> True \<notin> set (honeypot_run [(''hp_website_url'', blanks), (''hp_contact_info'', blanks)] False)"
  using honeypot_fires_once_at_first_fill
      [of "[(''hp_website_url'', blanks), (''hp_website_url'', spam), (''hp_fax_number'', spam)]"]
    honeypot_fires_once_at_first_fill [of "[(''hp_website_url'', blanks), (''hp_contact_info'', blanks)]"]
  by (simp add: trim_def isWhiteSpace_def spam_def blanks_def)

subsection \<open>Key deltas\<close>

lemma last_trackKeyPress:
  "last (typingPatterns (trackKeyPress k now st)) =
     \<lparr> tp_key = k, tp_timestamp = now, timeSinceLastKey = now - lastKeyTime st \<rparr>"
proof -
  have "last (tl (xs @ [p])) = p" if "length (xs @ [p]) > 100" for xs :: "TypingPattern list" and p
    using that by (cases xs) simp_all
  then show ?thesis
    by (simp add: trackKeyPress_def Let_def shift_def del: length_append)
qed

lemma lastKeyTime_trackKeyPress: "lastKeyTime (trackKeyPress k now st) = now"
  by (simp add: trackKeyPress_def Let_def)

lemma key_run_snoc: "key_run (es @ [e]) st = trackKeyPress (fst e) (snd e) (key_run es st)"
  by (induction es arbitrary: st) simp_all

lemma lastKeyTime_key_run:
  "lastKeyTime (key_run es st) = (if es = [] then lastKeyTime st else snd (last es))"
proof (induction es rule: rev_induct)
  case Nil
  then show ?case by simp
next
  case (snoc e es)
  then show ?case by (simp add: key_run_snoc lastKeyTime_trackKeyPress)
qed

lemma recorded_eq:
  assumes "i < length evs"
  shows "recorded evs start i =
     \<lparr> tp_key = fst (evs ! i), tp_timestamp = snd (evs ! i),
       timeSinceLastKey = snd (evs ! i) - (if i = 0 then 0 else snd (evs ! (i - 1))) \<rparr>"
proof -
  have t: "take (Suc i) evs = take i evs @ [evs ! i]"
    using assms by (simp add: take_Suc_conv_app_nth)
  have l: "lastKeyTime (key_run (take i evs) (useBotDetection_init start)) =
      (if i = 0 then 0 else snd (evs ! (i - 1)))"
  proof (cases i)
    case 0
    then show ?thesis by (simp add: useBotDetection_init_def)
  next
    case (Suc j)
    then have "take i evs \<noteq> []" "last (take i evs) = evs ! j"
      using assms by (auto simp add: take_Suc_conv_app_nth)
    then show ?thesis using Suc by (simp add: lastKeyTime_key_run)
  qed
  show ?thesis
    unfolding recorded_def t key_run_snoc last_trackKeyPress l ..
qed

text \<open>
  C3, as amended. The sample pushed by the first key event of a session has as delta the
  event's own timestamp (\<open>now - 0\<close>, the initial content of \<open>lastKeyTime\<close> being 0);
  the sample pushed by every later key event has as delta its timestamp minus the timestamp
  of the key event just before it in arrival order.
\<close>

theorem key_deltas:
  assumes "i < length evs"
  shows "timeSinceLastKey (recorded evs start i) =
           (if i = 0 then snd (evs ! 0) - 0 else snd (evs ! i) - snd (evs ! (i - 1)))
         \<and> tp_timestamp (recorded evs start i) = snd (evs ! i)"
  using assms by (simp add: recorded_eq)

theorem key_deltas_witness:
  "(1::nat) < length (keys_every 30 10)
   \<and> timeSinceLastKey (recorded (keys_every 30 10) 1700000000000 1) = 30
   \<and> (0::nat) < length (keys_every 30 10)
   \<and> timeSinceLastKey (recorded (keys_every 30 10) 1700000000000 0) = 1700000003000"
  using key_deltas [of 1 "keys_every 30 10" 1700000000000]
    key_deltas [of 0 "keys_every 30 10" 1700000000000]
  by (simp add: keys_every_def upt_rec)

text \<open>
  C3 as stated fails: the first key event of a session, arriving at 1700000003000, is
  recorded with a delta that is not 0.
\<close>

theorem first_key_delta_counterexample:
  "timeSinceLastKey (recorded [(''a'', 1700000003000)] 1700000000000 0) \<noteq> 0"
  by (simp add: recorded_def useBotDetection_init_def trackKeyPress_def Let_def)

subsection \<open>Reset of the honeypot hook\<close>

text \<open>
  C4 as stated fails: after a trigger by the value "spam" and a reset, a second fill of a
  honeypot field with "spam" does not call the callback.
\<close>

theorem reset_does_not_rearm_counterexample:
  "\<not> snd (HoneypotComponent_change spam
            (HoneypotComponent_reset (fst (HoneypotComponent_change spam (useHoneypot_init, False)))))"
  by (simp add: HoneypotComponent_change_def HoneypotComponent_reset_def handleFieldChange_def
        trim_def isWhiteSpace_def spam_def)

text \<open>
  C4, as amended. After a non-blank fill has triggered the trap, \<open>resetDetection\<close>
  restores \<open>isBotDetected = False\<close> and \<open>botScore = 0\<close> in the hook; the mounted
  component's own \<open>hasTriggered\<close> latch stays set, so a later change of a honeypot field,
  whatever its value, calls the callback no more and leaves the reset state as it is.
\<close>

theorem reset_clears_hook_only:
  assumes "trim v \<noteq> []"
  shows "snd (HoneypotComponent_change v (h, False))
     \<and> isBotDetected (fst (fst (HoneypotComponent_change v (h, False))))
     \<and> \<not> isBotDetected (fst (HoneypotComponent_reset (fst (HoneypotComponent_change v (h, False)))))
     \<and> hp_botScore (fst (HoneypotComponent_reset (fst (HoneypotComponent_change v (h, False))))) = 0
     \<and> snd (HoneypotComponent_reset (fst (HoneypotComponent_change v (h, False))))
     \<and> HoneypotComponent_change v' (HoneypotComponent_reset (fst (HoneypotComponent_change v (h, False))))
         = (HoneypotComponent_reset (fst (HoneypotComponent_change v (h, False))), False)"
  using assms
  by (simp add: HoneypotComponent_change_def HoneypotComponent_reset_def handleFieldChange_def
        handleBotDetected_def resetDetection_def)

theorem reset_clears_hook_only_witness:
  "trim spam \<noteq> []
   \<and> \<not> isBotDetected (fst (HoneypotComponent_reset (fst (HoneypotComponent_change spam (useHoneypot_init, False)))))
   \<and> HoneypotComponent_change spam
        (HoneypotComponent_reset (fst (HoneypotComponent_change spam (useHoneypot_init, False))))
      = ((useHoneypot_init, True), False)"
proof -
  have t: "trim spam \<noteq> []"
    by (simp add: trim_def isWhiteSpace_def spam_def)
  have r: "HoneypotComponent_reset (fst (HoneypotComponent_change spam (useHoneypot_init, False)))
      = (useHoneypot_init, True)"
    using t by (simp add: HoneypotComponent_change_def HoneypotComponent_reset_def
        handleFieldChange_def handleBotDetected_def resetDetection_def useHoneypot_init_def)
  show ?thesis
    using t reset_clears_hook_only [OF t, of useHoneypot_init spam] by (simp add: r)
qed



section \<open>The concrete sessions, evaluated\<close>

lemma five_moves_buffer:
  "mouseMovements five_moves =
     [\<lparr>mouse_x = 0, mouse_y = 0, mouse_timestamp = 1700000001000\<rparr>,
      \<lparr>mouse_x = 6, mouse_y = 0, mouse_timestamp = 1700000001010\<rparr>,
      \<lparr>mouse_x = 12, mouse_y = 0, mouse_timestamp = 1700000001020\<rparr>,
      \<lparr>mouse_x = 18, mouse_y = 0, mouse_timestamp = 1700000001030\<rparr>,
      \<lparr>mouse_x = 24, mouse_y = 0, mouse_timestamp = 1700000001040\<rparr>]"
  "hasMouseMovement five_moves" "typingPatterns five_moves = []" "focusEvents five_moves = 0"
  "formStartTime five_moves = 1700000000000"
  by (simp_all add: five_moves_def useBotDetection_init_def trackMouseMovement_def shift_def Let_def)

lemma five_moves_window: "movements five_moves = mouseMovements five_moves"
  by (simp add: movements_def slice_last_def five_moves_buffer)

lemma five_moves_steps: "manhattan_steps (movements five_moves) = [6, 6, 6, 6]"
  by (simp add: five_moves_window five_moves_buffer manhattan_steps_def fadd_def fsub_def
        fl_numeral fl_0)

lemma five_moves_variations: "variations (movements five_moves) = [0, 6, 6, 6, 6]"
  by (simp add: five_moves_window five_moves_buffer variations_def upt_rec fadd_def fsub_def
        fl_numeral fl_0 Let_def)

lemma five_moves_avg: "avgVariation five_moves = fl (24 / 5)"
  by (simp add: avgVariation_def five_moves_variations reduce_add_def fadd_def fdiv_def
        fl_numeral fl_0)

lemma fl_24_5: "fl (24 / 5) = 5404319552844595 / 2 ^ 50"
  by code_simp

lemma five_moves_result:
  "score (analyzeBehavior five_moves no_automation 1700000005000 1700000005000) = 35"
  "reasons (analyzeBehavior five_moves no_automation 1700000005000 1700000005000) =
     [''Unnatural mouse movement patterns'', ''Insufficient focus interactions'']"
  by (simp_all add: analyze_score analyze_reasons five_moves_buffer five_moves_avg fl_24_5
        no_automation_def headless_def)

lemma ten_keys_intervals: "length (typingPatterns ten_keys) = 10"
  "intervals ten_keys = [30, 30, 30, 30, 30, 30, 30, 30, 30]"
  by code_simp+

lemma eleven_keys_intervals: "length (typingPatterns eleven_keys) = 11"
  "intervals eleven_keys = [30, 30, 30, 30, 30, 30, 30, 30, 30, 30]"
  by code_simp+

lemma twenty_keys_intervals: "length (typingPatterns twenty_keys_50ms) = 20"
  "intervals twenty_keys_50ms =
     [50, 50, 50, 50, 50, 50, 50, 50, 50, 50, 50, 50, 50, 50, 50, 50, 50, 50, 50]"
  by code_simp+

lemma keys_avg:
  "avgInterval ten_keys = 30" "avgInterval eleven_keys = 30" "avgInterval twenty_keys_50ms = 50"
  by (simp_all add: avgInterval_eq ten_keys_intervals eleven_keys_intervals twenty_keys_intervals
        fl_numeral)

lemma keys_variance:
  "variance no_automation ten_keys = 0" "variance no_automation eleven_keys = 0"
  by (simp_all add: variance_def keys_avg ten_keys_intervals eleven_keys_intervals
        no_automation_def pow_rounded_def fadd_def fsub_def fdiv_def fl_0)


subsection \<open>The merge at submission time\<close>

text \<open>
  C1. At submission time the coordinator hands to the caller's callbacks a result whose
  score is the behaviour score plus 100 when the honeypot was triggered (plus 0 otherwise)
  and whose verdict is "that score is at least 50, or the honeypot was triggered": the
  bot-detected callback receives it when the verdict is bot, the submit handler otherwise.
  So with the honeypot triggered the verdict is bot for every behaviour score, and the
  submit handler is not called.
\<close>

theorem submission_merges_score_and_honeypot:
  "(let b = analyzeBehavior bs env t t';
        finalScore = score b + (if hp then 100 else 0);
        finalIsBot = (finalScore \<ge> 50 \<or> hp);
        r = \<lparr> score = finalScore,
              reasons = reasons b @ (if hp then [''Honeypot field filled''] else []),
              isBot = finalIsBot, stats = sst, honeypotTriggered = hp \<rparr>
    in fst (handleSubmit_try onSubmit onBotDetected fd hp sst env t t' (fs, bs)) =
         (if finalIsBot
          then (case onBotDetected of None \<Rightarrow> Inr () | Some f \<Rightarrow> f r)
          else onSubmit fd r))
   \<and> fst (handleSubmit_try onSubmit onBotDetected fd True sst env t t' (fs, bs)) =
         (case onBotDetected of None \<Rightarrow> Inr ()
          | Some f \<Rightarrow>
              f \<lparr> score = score (analyzeBehavior bs env t t') + 100,
                  reasons = reasons (analyzeBehavior bs env t t') @ [''Honeypot field filled''],
                  isBot = True, stats = sst, honeypotTriggered = True \<rparr>)
   \<and> score (mergeResult b hp st) = score b + (if hp then 100 else 0)
   \<and> isBot (mergeResult b hp st) = (score (mergeResult b hp st) \<ge> 50 \<or> hp)
   \<and> isBot (mergeResult b True st)"
  by (simp add: handleSubmit_try_def handleFormSubmit_def mergeResult_def Let_def
        split: sum.splits option.splits)

theorem submission_merges_score_and_honeypot_witness:
  "fst (handleSubmit_try (\<lambda>fd r. Inl r) (Some Inl) [(''email'', ''test@example.com'')] True
          \<lparr> stats_mouseMovements = 5, stats_typingEvents = 0, stats_focusEvents = 0,
            stats_timeSpent = 4000 \<rparr>
          no_automation 1700000005000 1700000005000
          (\<lparr> isSubmitting = False, console_error = [] \<rparr>, five_moves))
     = Inl \<lparr> score = 135,
             reasons = [''Unnatural mouse movement patterns'', ''Insufficient focus interactions'',
                        ''Honeypot field filled''],
             isBot = True,
             stats = \<lparr> stats_mouseMovements = 5, stats_typingEvents = 0, stats_focusEvents = 0,
                       stats_timeSpent = 4000 \<rparr>,
             honeypotTriggered = True \<rparr>"
  using submission_merges_score_and_honeypot [of five_moves no_automation 1700000005000
      1700000005000 True
      "\<lparr> stats_mouseMovements = 5, stats_typingEvents = 0, stats_focusEvents = 0,
         stats_timeSpent = 4000 \<rparr>"
      "\<lambda>fd r. Inl r" "Some Inl" "[(''email'', ''test@example.com'')]"
      "\<lparr> isSubmitting = False, console_error = [] \<rparr>"]
  by (simp add: five_moves_result)

subsection \<open>The typing gate\<close>

text \<open>
  C5 as stated fails: a session with exactly 10 key samples, 9 of whose deltas lie strictly
  between 0 and 1000 ms (variance 0, mean 30), is not scored by R3 or R4.
\<close>

theorem ten_keys_not_scored_counterexample:
  "length (typingPatterns ten_keys) = 10
   \<and> 6 \<le> length (intervals ten_keys)
   \<and> variance no_automation ten_keys < 100 \<and> avgInterval ten_keys < 50
   \<and> checkTyping no_automation ten_keys (0, []) = (0, [])
   \<and> ''Unnaturally consistent typing pattern''
        \<notin> set (reasons (analyzeBehavior ten_keys no_automation 1700000005000 1700000005000))
   \<and> ''Superhuman typing speed detected''
        \<notin> set (reasons (analyzeBehavior ten_keys no_automation 1700000005000 1700000005000))"
  by (simp add: reason_mem checkTyping_def ten_keys_intervals keys_avg keys_variance)

text \<open>
  C5, as amended. Rules R3 and R4 are evaluated for every snapshot with at least 11 key
  samples (more than 10) and at least 6 qualifying filtered deltas; a snapshot with 10 key
  samples or fewer is never scored by R3 or R4.
\<close>

theorem typing_gate:
  "(11 \<le> length (typingPatterns st) \<and> 6 \<le> length (intervals st)
      \<longrightarrow> checkTyping env st a = checkSpeed st (checkVariance env st a))
   \<and> (length (typingPatterns st) \<le> 10 \<longrightarrow> checkTyping env st a = a)
   \<and> (''Unnaturally consistent typing pattern'' \<in> set (reasons (analyzeBehavior st env t t'))
        \<longleftrightarrow> 11 \<le> length (typingPatterns st) \<and> 6 \<le> length (intervals st) \<and> variance env st < 100)
   \<and> (''Superhuman typing speed detected'' \<in> set (reasons (analyzeBehavior st env t t'))
        \<longleftrightarrow> 11 \<le> length (typingPatterns st) \<and> 6 \<le> length (intervals st) \<and> avgInterval st < 50)"
  unfolding reason_mem by (auto simp add: checkTyping_def)

theorem typing_gate_witness:
  "11 \<le> length (typingPatterns eleven_keys) \<and> 6 \<le> length (intervals eleven_keys)
   \<and> checkTyping no_automation eleven_keys (0, []) =
        (35, [''Unnaturally consistent typing pattern'', ''Superhuman typing speed detected''])
   \<and> length (typingPatterns ten_keys) \<le> 10
   \<and> checkTyping no_automation ten_keys (0, []) = (0, [])"
proof -
  have e: "11 \<le> length (typingPatterns eleven_keys) \<and> 6 \<le> length (intervals eleven_keys)"
    by (simp add: eleven_keys_intervals)
  have c: "checkSpeed eleven_keys (checkVariance no_automation eleven_keys (0, [])) =
        (35, [''Unnaturally consistent typing pattern'', ''Superhuman typing speed detected''])"
    by (simp add: checkSpeed_def checkVariance_def keys_avg keys_variance)
  have t: "length (typingPatterns ten_keys) \<le> 10"
    by (simp add: ten_keys_intervals)
  show ?thesis
    using typing_gate [of eleven_keys no_automation "(0, [])" 1700000005000 1700000005000]
      typing_gate [of ten_keys no_automation "(0, [])" 1700000005000 1700000005000] e c t
    by simp
qed

subsection \<open>Superhuman typing speed\<close>

lemma intervals_most_recent:
  "intervals st =
     filter (\<lambda>t. 0 < t \<and> t < 1000) (map timeSinceLastKey (most_recent 20 (typingPatterns st)))"
  by (simp add: intervals_def slice_last_most_recent)

text \<open>
  C7 as stated fails: a session with 10 key samples and 9 filtered deltas satisfies the
  precondition "at least 10 key samples, at least 6 filtered deltas", the mean of its
  filtered deltas is 30, below 50, and R4's reason is not reported.
\<close>

theorem ten_keys_fast_without_R4_counterexample:
  "10 \<le> length (typingPatterns ten_keys)
   \<and> 6 \<le> length (intervals ten_keys)
   \<and> mean (map of_int (intervals ten_keys)) < 50
   \<and> ''Superhuman typing speed detected''
        \<notin> set (reasons (analyzeBehavior ten_keys no_automation 1700000005000 1700000005000))"
  by (simp add: reason_mem ten_keys_intervals mean_def)

text \<open>
  C7, as amended. For every snapshot with more than 10 key samples and at least 6 filtered
  deltas (the deltas strictly between 0 and 1000 ms among the 20 most recent key samples),
  R4 adds 20 and its reason "Superhuman typing speed detected" exactly when the mean of the
  filtered deltas is strictly below 50; a mean of exactly 50 does not trigger it.
\<close>

theorem superhuman_speed_iff_mean_below_50:
  assumes "length (typingPatterns st) > 10" and "length (intervals st) > 5"
  shows "(''Superhuman typing speed detected'' \<in> set (reasons (analyzeBehavior st env t t'))
            \<longleftrightarrow> mean (map of_int (intervals st)) < 50)
     \<and> intervals st =
         filter (\<lambda>t. 0 < t \<and> t < 1000) (map timeSinceLastKey (most_recent 20 (typingPatterns st)))
     \<and> checkTyping env st a = checkSpeed st (checkVariance env st a)
     \<and> checkSpeed st (s, rs) =
         (if mean (map of_int (intervals st)) < 50
          then (s + 20, rs @ [''Superhuman typing speed detected'']) else (s, rs))
     \<and> (mean (map of_int (intervals st)) = 50
          \<longrightarrow> ''Superhuman typing speed detected'' \<notin> set (reasons (analyzeBehavior st env t t')))"
proof -
  have m: "avgInterval st < 50 \<longleftrightarrow> mean (map of_int (intervals st)) < 50"
    using assms(2) by (intro avgInterval_less_50) linarith
  show ?thesis
    using assms intervals_most_recent [of st] unfolding reason_mem
    by (simp add: checkTyping_def checkSpeed_def m)
qed

theorem superhuman_speed_iff_mean_below_50_witness:
  "length (typingPatterns twenty_keys_50ms) > 10 \<and> length (intervals twenty_keys_50ms) > 5
   \<and> mean (map of_int (intervals twenty_keys_50ms)) = 50
   \<and> ''Superhuman typing speed detected''
        \<notin> set (reasons (analyzeBehavior twenty_keys_50ms no_automation 1700000005000 1700000005000))"
proof -
  have h: "length (typingPatterns twenty_keys_50ms) > 10" "length (intervals twenty_keys_50ms) > 5"
    by (simp_all add: twenty_keys_intervals)
  have m: "mean (map of_int (intervals twenty_keys_50ms)) = 50"
    by (simp add: twenty_keys_intervals mean_def)
  show ?thesis
    using h m superhuman_speed_iff_mean_below_50 [OF h, of no_automation 1700000005000 1700000005000]
    by simp
qed


subsection \<open>Mouse variation\<close>

lemma length_variations: "length (variations ms) = length ms"
  by (simp add: variations_def)

lemma variations_Cons:
  assumes "ms \<noteq> []"
  shows "variations ms = 0 # manhattan_steps ms"
proof (rule nth_equalityI)
  show "length (variations ms) = length (0 # manhattan_steps ms)"
    using assms by (cases ms) (simp_all add: variations_def manhattan_steps_def)
next
  fix i assume "i < length (variations ms)"
  then have i: "i < length ms" by (simp add: length_variations)
  show "variations ms ! i = (0 # manhattan_steps ms) ! i"
  proof (cases i)
    case 0
    then show ?thesis using i by (simp add: variations_def)
  next
    case (Suc j)
    then have j: "j < length (tl ms)" "j < length ms" using i by simp_all
    then have "manhattan_steps ms ! j =
        fadd \<bar>fsub (mouse_x (ms ! Suc j)) (mouse_x (ms ! j))\<bar>
             \<bar>fsub (mouse_y (ms ! Suc j)) (mouse_y (ms ! j))\<bar>"
      by (simp add: manhattan_steps_def nth_tl)
    then show ?thesis using Suc i by (simp add: variations_def Let_def)
  qed
qed

lemma reduce_add_variations:
  "reduce_add (variations ms) = foldl fadd 0 (manhattan_steps ms)"
proof (cases ms)
  case Nil
  then show ?thesis by (simp add: variations_def manhattan_steps_def reduce_add_def)
next
  case (Cons m ms')
  then have "reduce_add (variations ms) = reduce_add (manhattan_steps ms)"
    using variations_Cons [of ms] by (simp add: reduce_add_Cons_0)
  then show ?thesis by (simp add: reduce_add_def)
qed

lemma movements_most_recent: "movements st = most_recent 20 (mouseMovements st)"
  by (simp add: movements_def slice_last_most_recent)

lemma avgVariation_eq:
  "avgVariation st =
     fdiv (foldl fadd 0 (manhattan_steps (most_recent 20 (mouseMovements st))))
          (of_nat (length (most_recent 20 (mouseMovements st))))"
  by (simp add: avgVariation_def reduce_add_variations length_variations movements_most_recent)

lemma length_most_recent: "length (most_recent n xs) = min n (length xs)"
  by (simp add: most_recent_def)

text \<open>Integer coordinates: every step is computed exactly.\<close>

lemma int_step:
  assumes "a \<in> \<int>" "b \<in> \<int>" "c \<in> \<int>" "d \<in> \<int>"
    and "\<bar>a\<bar> \<le> 2 ^ 40" "\<bar>b\<bar> \<le> 2 ^ 40" "\<bar>c\<bar> \<le> 2 ^ 40" "\<bar>d\<bar> \<le> 2 ^ 40"
  shows "\<exists>k. 0 \<le> k \<and> k \<le> 2 ^ 42 \<and> fadd \<bar>fsub a b\<bar> \<bar>fsub c d\<bar> = of_int k
             \<and> \<bar>a - b\<bar> + \<bar>c - d\<bar> = (of_int k :: rat)"
proof -
  from assms(1-4) obtain i j k l where
    e: "a = of_int i" "b = of_int j" "c = of_int k" "d = of_int l"
    by (auto elim!: Ints_cases)
  have b: "\<bar>i\<bar> \<le> 2 ^ 40" "\<bar>j\<bar> \<le> 2 ^ 40" "\<bar>k\<bar> \<le> 2 ^ 40" "\<bar>l\<bar> \<le> 2 ^ 40"
  proof -
    have q: "\<bar>n\<bar> \<le> 2 ^ 40" if "\<bar>(of_int n :: rat)\<bar> \<le> 2 ^ 40" for n :: int
    proof -
      have "(of_int \<bar>n\<bar> :: rat) \<le> of_int (2 ^ 40)" using that by simp
      then show ?thesis by (simp only: of_int_le_iff)
    qed
    show "\<bar>i\<bar> \<le> 2 ^ 40" "\<bar>j\<bar> \<le> 2 ^ 40" "\<bar>k\<bar> \<le> 2 ^ 40" "\<bar>l\<bar> \<le> 2 ^ 40"
      using assms(5-8) unfolding e by (auto intro: q)
  qed
  have s1: "fsub a b = of_int (i - j)"
    unfolding e using b by (intro fsub_of_int) simp
  have s2: "fsub c d = of_int (k - l)"
    unfolding e using b by (intro fsub_of_int) simp
  have "fadd \<bar>fsub a b\<bar> \<bar>fsub c d\<bar> = fadd (of_int \<bar>i - j\<bar>) (of_int \<bar>k - l\<bar>)"
    by (simp add: s1 s2)
  also have "\<dots> = of_int (\<bar>i - j\<bar> + \<bar>k - l\<bar>)"
    using b by (intro fadd_of_int) simp
  finally have f: "fadd \<bar>fsub a b\<bar> \<bar>fsub c d\<bar> = of_int (\<bar>i - j\<bar> + \<bar>k - l\<bar>)" .
  have g: "\<bar>a - b\<bar> + \<bar>c - d\<bar> = (of_int (\<bar>i - j\<bar> + \<bar>k - l\<bar>) :: rat)"
    by (simp add: e)
  have "0 \<le> \<bar>i - j\<bar> + \<bar>k - l\<bar>" "\<bar>i - j\<bar> + \<bar>k - l\<bar> \<le> 2 ^ 42"
    using b by simp_all
  with f g show ?thesis by blast
qed

lemma int_steps_list:
  assumes "\<forall>(p, m)\<in>set ps. int_coords p \<and> int_coords m"
  shows "\<exists>ks. (\<forall>k\<in>set ks. 0 \<le> k \<and> k \<le> 2 ^ 42) \<and> length ks = length ps
     \<and> map (\<lambda>(prev, m). fadd \<bar>fsub (mouse_x m) (mouse_x prev)\<bar> \<bar>fsub (mouse_y m) (mouse_y prev)\<bar>) ps
          = map of_int ks
     \<and> map (\<lambda>(prev, m). \<bar>mouse_x m - mouse_x prev\<bar> + \<bar>mouse_y m - mouse_y prev\<bar>) ps
          = map of_int ks"
  using assms
proof (induction ps)
  case Nil
  then show ?case by simp
next
  case (Cons pm ps)
  obtain p m where pm: "pm = (p, m)" by (cases pm)
  from Cons.prems pm have c: "int_coords p" "int_coords m" by simp_all
  from int_step [of "mouse_x m" "mouse_x p" "mouse_y m" "mouse_y p"] c
  obtain k where k: "0 \<le> k" "k \<le> 2 ^ 42"
    "fadd \<bar>fsub (mouse_x m) (mouse_x p)\<bar> \<bar>fsub (mouse_y m) (mouse_y p)\<bar> = of_int k"
    "\<bar>mouse_x m - mouse_x p\<bar> + \<bar>mouse_y m - mouse_y p\<bar> = (of_int k :: rat)"
    unfolding int_coords_def by blast
  from Cons.IH Cons.prems obtain ks where ks:
    "\<forall>k\<in>set ks. 0 \<le> k \<and> k \<le> 2 ^ 42" "length ks = length ps"
    "map (\<lambda>(prev, m). fadd \<bar>fsub (mouse_x m) (mouse_x prev)\<bar> \<bar>fsub (mouse_y m) (mouse_y prev)\<bar>) ps
          = map of_int ks"
    "map (\<lambda>(prev, m). \<bar>mouse_x m - mouse_x prev\<bar> + \<bar>mouse_y m - mouse_y prev\<bar>) ps
          = map of_int ks"
    by auto
  show ?case
    using k ks by (intro exI [of _ "k # ks"]) (simp add: pm)
qed

lemma int_window_average:
  assumes "\<forall>m\<in>set W. int_coords m" and "0 < length W" and "length W \<le> 20"
  shows "fdiv (foldl fadd 0 (manhattan_steps W)) (of_nat (length W)) < 5
     \<longleftrightarrow> sum_list (exact_steps W) / of_nat (length W) < 5"
proof -
  have t: "x \<in> set W" if "x \<in> set (tl W)" for x
    using that by (cases W) simp_all
  have "\<forall>(p, m)\<in>set (zip W (tl W)). int_coords p \<and> int_coords m"
    using assms(1) by (auto dest: set_zip_leftD set_zip_rightD t)
  from int_steps_list [OF this] obtain ks where ks:
    "\<forall>k\<in>set ks. 0 \<le> k \<and> k \<le> 2 ^ 42" "length ks = length (zip W (tl W))"
    "manhattan_steps W = map of_int ks" "exact_steps W = map of_int ks"
    unfolding manhattan_steps_def exact_steps_def by blast
  have len: "length ks \<le> 19" using ks(2) assms(3) by simp
  have "sum_list ks \<le> (2 ^ 42 + 1) * int (length ks)"
    using ks(1) by (intro sum_list_bounded) auto
  also have "\<dots> \<le> (2 ^ 42 + 1) * 19" using len by simp
  finally have hi: "sum_list ks < 2 ^ 53" by simp
  have lo: "0 \<le> sum_list ks" using ks(1) by (intro sum_list_nonneg) simp
  have "foldl fadd (of_int 0) (map of_int ks) = of_int (0 + sum_list ks)"
    using ks(1) hi by (intro foldl_fadd_of_int) simp_all
  then have f: "foldl fadd 0 (manhattan_steps W) = of_int (sum_list ks)"
    by (simp add: ks(3))
  have e: "sum_list (exact_steps W) = (of_int (sum_list ks) :: rat)"
    unfolding ks(4) by (induction ks) simp_all
  have "fl (of_int (sum_list ks) / of_nat (length W)) < of_int 5
      \<longleftrightarrow> (of_int (sum_list ks) / of_nat (length W) :: rat) < of_int 5"
    using lo hi assms(2,3) by (intro fl_quotient_less_iff) simp_all
  then show ?thesis by (simp add: f e fdiv_def)
qed


text \<open>
  With fractional coordinates the rounding can decide. For the samples of \<open>frac_moves\<close>
  the exact sum of the distances is \<open>25 - 2^-49\<close>, so the exact quotient by 5 is below 5;
  the double sum is 25, the average is exactly 5, and R2 does not fire.
\<close>

lemma frac_moves_buffer:
  "mouseMovements frac_moves =
     [\<lparr>mouse_x = 4911738343600947 / 2 ^ 47, mouse_y = 0, mouse_timestamp = 1700000001000\<rparr>,
      \<lparr>mouse_x = 41 / 2, mouse_y = 0, mouse_timestamp = 1700000001010\<rparr>,
      \<lparr>mouse_x = 2265873562520781 / 2 ^ 47, mouse_y = 0, mouse_timestamp = 1700000001020\<rparr>,
      \<lparr>mouse_x = 13, mouse_y = 0, mouse_timestamp = 1700000001030\<rparr>,
      \<lparr>mouse_x = 5573204538870989 / 2 ^ 49, mouse_y = 0, mouse_timestamp = 1700000001040\<rparr>]"
  "hasMouseMovement frac_moves"
  by (simp_all add: frac_moves_def useBotDetection_init_def trackMouseMovement_def shift_def Let_def)

lemma frac_moves_window:
  "most_recent 20 (mouseMovements frac_moves) = mouseMovements frac_moves"
  by (simp add: most_recent_def frac_moves_buffer)

lemma frac_moves_double_sum:
  "foldl fadd 0 (manhattan_steps (mouseMovements frac_moves)) = 25"
  unfolding frac_moves_buffer by code_simp

lemma frac_moves_exact_sum:
  "sum_list (exact_steps (mouseMovements frac_moves)) = 25 - 1 / 2 ^ 49"
  unfolding frac_moves_buffer by (simp add: exact_steps_def)

lemma rounding_decides:
  "hasMouseMovement frac_moves \<and> 5 \<le> length (mouseMovements frac_moves)
   \<and> sum_list (exact_steps (most_recent 20 (mouseMovements frac_moves)))
        / of_nat (length (most_recent 20 (mouseMovements frac_moves))) < 5
   \<and> avgVariation frac_moves = 5
   \<and> ''Unnatural mouse movement patterns''
        \<notin> set (reasons (analyzeBehavior frac_moves no_automation 1700000005000 1700000005000))"
proof -
  have a: "avgVariation frac_moves = 5"
    unfolding avgVariation_eq frac_moves_window frac_moves_double_sum
    by (simp add: frac_moves_buffer fdiv_def fl_numeral)
  have e: "sum_list (exact_steps (most_recent 20 (mouseMovements frac_moves)))
        / of_nat (length (most_recent 20 (mouseMovements frac_moves))) < 5"
    unfolding frac_moves_window frac_moves_exact_sum by (simp add: frac_moves_buffer)
  show ?thesis
    using a e unfolding reason_mem by (simp add: frac_moves_buffer)
qed

text \<open>
  C6 as stated fails: five samples 6 pixels apart have consecutive Manhattan distances
  6, 6, 6, 6, whose average 6 (in exact and in double arithmetic) is not below 5, and yet
  R2's reason is reported.
\<close>

theorem straight_line_counterexample:
  "hasMouseMovement five_moves \<and> 5 \<le> length (mouseMovements five_moves)
   \<and> manhattan_steps (movements five_moves) = [6, 6, 6, 6]
   \<and> \<not> mean (manhattan_steps (movements five_moves)) < 5
   \<and> \<not> double_mean (manhattan_steps (movements five_moves)) < 5
   \<and> ''Unnatural mouse movement patterns''
        \<in> set (reasons (analyzeBehavior five_moves no_automation 1700000005000 1700000005000))"
  by (simp add: five_moves_steps five_moves_result five_moves_buffer mean_def double_mean_def
        fadd_def fdiv_def fl_numeral fl_0)

text \<open>
  C6, as amended. For every snapshot in which R1 does not fire, R2 adds 20 and its reason
  "Unnatural mouse movement patterns" exactly when the sum of the consecutive Manhattan
  distances over the most recent at-most-20 mouse samples, divided by the number of those
  samples (one more than the number of distances), is strictly less than 5, the distances,
  their sum from left to right and the quotient being computed in double arithmetic. When
  the coordinates of those samples are integers of magnitude at most \<open>2^40\<close>, this is the
  same as the exact sum of the distances divided by the number of samples being below 5.
\<close>

theorem unnatural_mouse_iff:
  assumes "hasMouseMovement st" and "5 \<le> length (mouseMovements st)"
  shows "(''Unnatural mouse movement patterns'' \<in> set (reasons (analyzeBehavior st env t t'))
            \<longleftrightarrow> fdiv (foldl fadd 0 (manhattan_steps (most_recent 20 (mouseMovements st))))
                     (of_nat (length (most_recent 20 (mouseMovements st)))) < 5)
     \<and> checkMouse st (s, rs) =
         (if fdiv (foldl fadd 0 (manhattan_steps (most_recent 20 (mouseMovements st))))
                  (of_nat (length (most_recent 20 (mouseMovements st)))) < 5
          then (s + 20, rs @ [''Unnatural mouse movement patterns'']) else (s, rs))
     \<and> length (manhattan_steps (most_recent 20 (mouseMovements st))) + 1
         = length (most_recent 20 (mouseMovements st))
     \<and> length (most_recent 20 (mouseMovements st)) = min 20 (length (mouseMovements st))
     \<and> ''No natural mouse movement detected'' \<notin> set (reasons (analyzeBehavior st env t t'))
     \<and> ((\<forall>m\<in>set (most_recent 20 (mouseMovements st)). int_coords m) \<longrightarrow>
          (''Unnatural mouse movement patterns'' \<in> set (reasons (analyzeBehavior st env t t'))
             \<longleftrightarrow> sum_list (exact_steps (most_recent 20 (mouseMovements st)))
                   / of_nat (length (most_recent 20 (mouseMovements st))) < 5))"
proof -
  let ?W = "most_recent 20 (mouseMovements st)"
  have l: "length ?W = min 20 (length (mouseMovements st))"
    by (rule length_most_recent)
  have s: "length (manhattan_steps ?W) + 1 = length ?W"
    using assms(2) by (simp add: manhattan_steps_def l)
  have r1: "''No natural mouse movement detected'' \<notin> set (reasons (analyzeBehavior st env t t'))"
    using assms unfolding reason_mem by simp
  have r2: "''Unnatural mouse movement patterns'' \<in> set (reasons (analyzeBehavior st env t t'))
      \<longleftrightarrow> fdiv (foldl fadd 0 (manhattan_steps ?W)) (of_nat (length ?W)) < 5"
    using assms unfolding reason_mem by (simp add: avgVariation_eq)
  have c: "checkMouse st (s, rs) =
         (if fdiv (foldl fadd 0 (manhattan_steps ?W)) (of_nat (length ?W)) < 5
          then (s + 20, rs @ [''Unnatural mouse movement patterns'']) else (s, rs))"
    using assms by (simp add: checkMouse_def avgVariation_eq)
  have p: "0 < length ?W" "length ?W \<le> 20"
    using assms(2) l by linarith+
  have i: "fdiv (foldl fadd 0 (manhattan_steps ?W)) (of_nat (length ?W)) < 5
      \<longleftrightarrow> sum_list (exact_steps ?W) / of_nat (length ?W) < 5"
    if "\<forall>m\<in>set ?W. int_coords m"
    by (rule int_window_average [OF that p])
  show ?thesis
    using l s r1 r2 c i by blast
qed

theorem unnatural_mouse_iff_witness:
  "hasMouseMovement five_moves \<and> 5 \<le> length (mouseMovements five_moves)
   \<and> sum_list (exact_steps (most_recent 20 (mouseMovements five_moves)))
        / of_nat (length (most_recent 20 (mouseMovements five_moves))) = 24 / 5
   \<and> ''Unnatural mouse movement patterns''
        \<in> set (reasons (analyzeBehavior five_moves no_automation 1700000005000 1700000005000))"
proof -
  have h: "hasMouseMovement five_moves" "5 \<le> length (mouseMovements five_moves)"
    by (simp_all add: five_moves_buffer)
  have w: "most_recent 20 (mouseMovements five_moves) = mouseMovements five_moves"
    by (simp add: most_recent_def five_moves_buffer)
  have ic: "\<forall>m\<in>set (most_recent 20 (mouseMovements five_moves)). int_coords m"
    unfolding w by (simp add: five_moves_buffer int_coords_def)
  have m: "sum_list (exact_steps (most_recent 20 (mouseMovements five_moves)))
        / of_nat (length (most_recent 20 (mouseMovements five_moves))) = 24 / 5"
    unfolding w by (simp add: five_moves_buffer exact_steps_def)
  have lt: "sum_list (exact_steps (most_recent 20 (mouseMovements five_moves)))
        / of_nat (length (most_recent 20 (mouseMovements five_moves))) < 5"
    unfolding m by simp
  from unnatural_mouse_iff [OF h, of no_automation 1700000005000 1700000005000] ic lt
  have "''Unnatural mouse movement patterns''
        \<in> set (reasons (analyzeBehavior five_moves no_automation 1700000005000 1700000005000))"
    by blast
  with h m show ?thesis by blast
qed

subsection \<open>Errors of the submit handler\<close>

lemma handleSubmit_returns:
  "fst (handleSubmit onSubmit onBotDetected fd hp sst env t t' (fs, bs)) = Inr ()
   \<and> \<not> isSubmitting (fst (snd (handleSubmit onSubmit onBotDetected fd hp sst env t t' (fs, bs))))"
  by (simp add: handleSubmit_def handleSubmit_try_def handleSubmit_catch_def
        handleSubmit_finally_def handleFormSubmit_def Let_def split: sum.splits option.splits)

text \<open>
  C9. \<open>handleSubmit\<close> always completes normally with the submitting flag cleared and the
  submit button enabled; and when the submission is not blocked as a bot and the caller's
  submit handler raises an error, that error is logged once under the tag
  "Form submission error:", the flag is cleared, and nothing is raised to the caller.
\<close>

theorem submit_error_is_caught:
  "fst (handleSubmit onSubmit onBotDetected fd hp sst env t t' (fs, bs)) = Inr ()
   \<and> \<not> isSubmitting (fst (snd (handleSubmit onSubmit onBotDetected fd hp sst env t t' (fs, bs))))
   \<and> \<not> submitDisabled (fst (snd (handleSubmit onSubmit onBotDetected fd hp sst env t t' (fs, bs))))
   \<and> (\<not> isBot (mergeResult (analyzeBehavior bs env t t') hp sst)
        \<and> onSubmit fd (mergeResult (analyzeBehavior bs env t t') hp sst) = Inl err
      \<longrightarrow> handleSubmit onSubmit onBotDetected fd hp sst env t t' (fs, bs) =
            (Inr (),
             fs \<lparr> isSubmitting := False,
                  console_error := console_error fs @ [(''Form submission error:'', err)] \<rparr>,
             snd (handleFormSubmit bs env t t')))"
  using handleSubmit_returns [of onSubmit onBotDetected fd hp sst env t t' fs bs]
  by (simp add: submitDisabled_def handleSubmit_def handleSubmit_try_def handleSubmit_catch_def
        handleSubmit_finally_def handleFormSubmit_def Let_def)

theorem submit_error_is_caught_witness:
  "\<not> isBot (mergeResult (analyzeBehavior five_moves no_automation 1700000005000 1700000005000) False
             (stats (analyzeBehavior five_moves no_automation 1700000005000 1700000005000)))
   \<and> handleSubmit (\<lambda>fd r. Inl ''Network error'') None [(''email'', ''test@example.com'')] False
        (stats (analyzeBehavior five_moves no_automation 1700000005000 1700000005000))
        no_automation 1700000005000 1700000005000
        (\<lparr> isSubmitting = False, console_error = [] \<rparr>, five_moves)
      = (Inr (),
         \<lparr> isSubmitting = False, console_error = [(''Form submission error:'', ''Network error'')] \<rparr>,
         snd (handleFormSubmit five_moves no_automation 1700000005000 1700000005000))"
proof -
  have n: "\<not> isBot (mergeResult (analyzeBehavior five_moves no_automation 1700000005000 1700000005000) False
             (stats (analyzeBehavior five_moves no_automation 1700000005000 1700000005000)))"
    by (simp add: mergeResult_def Let_def five_moves_result)
  show ?thesis
    using n submit_error_is_caught [of "\<lambda>fd r. Inl ''Network error''" None
        "[(''email'', ''test@example.com'')]" False
        "stats (analyzeBehavior five_moves no_automation 1700000005000 1700000005000)"
        no_automation 1700000005000 1700000005000 "\<lparr> isSubmitting = False, console_error = [] \<rparr>"
        five_moves "''Network error''"]
    by simp
qed


end
